theory Spec2Isabelle
  imports Complex_Main "HOL-Library.Sublist"
begin

text \<open>
  A model of \<open>src/lib/youtube-likes.ts\<close>: the numeric-text parser, the identifier
  extractors, the two signal locators, the page analyzer and the aggregator. Each
  function of the source is a function here under its own name. What the source takes
  from its surroundings is an argument: the document, the blobs on \<open>window\<close>, the clock
  and the URL parser of the platform. An exception is a value \<open>Inl e\<close> of a sum type,
  and a \<open>try\<close> with its \<open>catch\<close> is a case distinction on it. The calls of \<open>console.log\<close>
  and \<open>console.error\<close> have no part in any result and are left out.
\<close>

section \<open>Strings\<close>

text \<open>
  A string is a list of 8-bit characters: the model covers the code units 0 to 255.
  The helpers below are the string methods and character classes the source uses.
\<close>

definition is_digit :: "char \<Rightarrow> bool" where
  "is_digit c \<longleftrightarrow> c \<in> set ''0123456789''"

definition is_alpha :: "char \<Rightarrow> bool" where
  "is_alpha c \<longleftrightarrow> c \<in> set ''abcdefghijklmnopqrstuvwxyzABCDEFGHIJKLMNOPQRSTUVWXYZ''"

text \<open>The class \<open>\w\<close> of a regular expression: letters, digits and the underscore.\<close>

definition is_word_char :: "char \<Rightarrow> bool" where
  "is_word_char c \<longleftrightarrow> is_alpha c \<or> is_digit c \<or> c = CHR ''_''"

text \<open>
  White space and line terminators, as \<open>trim\<close>, \<open>parseFloat\<close> and \<open>parseInt\<close> skip them:
  tab, line feed, vertical tab, form feed, carriage return, space, no-break space.
\<close>

definition is_space :: "char \<Rightarrow> bool" where
  "is_space c \<longleftrightarrow> c \<in> set [CHR 0x09, CHR 0x0A, CHR 0x0B, CHR 0x0C, CHR 0x0D, CHR 0x20, CHR 0xA0]"

definition trim :: "string \<Rightarrow> string" where
  "trim s = rev (dropWhile is_space (rev (dropWhile is_space s)))"

text \<open>
  \<open>toLowerCase\<close>: the letters A to Z, and the capital letters of Latin-1 (0xC0 to 0xDE
  without the multiplication sign 0xD7), move up by 32.
\<close>

definition lower_char :: "char \<Rightarrow> char" where
  "lower_char c =
     (let n = (of_char c :: nat) in
      if (65 \<le> n \<and> n \<le> 90) \<or> (192 \<le> n \<and> n \<le> 222 \<and> n \<noteq> 215) then char_of (n + 32) else c)"

definition toLowerCase :: "string \<Rightarrow> string" where
  "toLowerCase s = map lower_char s"

text \<open>\<open>s.includes(sub)\<close>: \<open>sub\<close> occurs in \<open>s\<close> as a contiguous run.\<close>

fun str_includes :: "string \<Rightarrow> string \<Rightarrow> bool" where
  "str_includes [] sub = (sub = [])"
| "str_includes (c # cs) sub = (prefix sub (c # cs) \<or> str_includes cs sub)"

text \<open>\<open>s.replace(pat, rep)\<close> with a string pattern: the first occurrence only.\<close>

fun replace_first :: "string \<Rightarrow> string \<Rightarrow> string \<Rightarrow> string" where
  "replace_first pat rep [] = (if pat = [] then rep else [])"
| "replace_first pat rep (c # cs) =
     (if prefix pat (c # cs) then rep @ drop (length pat) (c # cs)
      else c # replace_first pat rep cs)"

text \<open>A loop that returns from inside at the first hit, and falls through otherwise.\<close>

fun first_some :: "('a \<Rightarrow> 'b option) \<Rightarrow> 'a list \<Rightarrow> 'b option" where
  "first_some f [] = None"
| "first_some f (x # xs) = (case f x of Some y \<Rightarrow> Some y | None \<Rightarrow> first_some f xs)"

text \<open>
  An unanchored regular expression is tried at every start position from the left;
  \<open>m\<close> is the match at the start of its argument.
\<close>

fun match_first :: "(string \<Rightarrow> 'a option) \<Rightarrow> string \<Rightarrow> 'a option" where
  "match_first m [] = m []"
| "match_first m (c # cs) = (case m (c # cs) of Some r \<Rightarrow> Some r | None \<Rightarrow> match_first m cs)"

text \<open>A capture group under \<open>+\<close>: the longest run of the class, which must not be empty.\<close>

definition group_plus :: "(char \<Rightarrow> bool) \<Rightarrow> string \<Rightarrow> string option" where
  "group_plus cls s = (let g = takeWhile cls s in if g = [] then None else Some g)"

section \<open>Numbers\<close>

text \<open>
  A TypeScript \<open>number\<close> is a binary64 value. A finite value is kept as the rational
  it stands for, and an operation whose exact result may lie outside binary64 rounds it
  with \<open>round_double\<close>: to the nearest binary64 value, a tie going to the even
  significand, and to an infinity when the rounded value reaches \<open>2 ^ 1024\<close>. \<open>-0\<close> is
  not told apart from \<open>0\<close>. The non-finite values are explicit.
\<close>

datatype number = NaN | Num rat | PosInf | NegInf

text \<open>The number of binary digits of a positive integer.\<close>

function bit_length :: "int \<Rightarrow> int" where
  "bit_length k = (if k \<le> 0 then 0 else 1 + bit_length (k div 2))"
  by pat_completeness auto
termination
  by (relation "measure nat") auto

declare bit_length.simps [simp del]

definition pow2 :: "int \<Rightarrow> rat" where
  "pow2 e = (if e \<ge> 0 then 2 ^ nat e else 1 / 2 ^ nat (- e))"

text \<open>The exponent \<open>e\<close> of a positive rational \<open>a\<close>, with \<open>2 ^ e \<le> a < 2 ^ (e + 1)\<close>.\<close>

definition binary_exponent :: "rat \<Rightarrow> int" where
  "binary_exponent a =
     (if a \<ge> 1 then bit_length \<lfloor>a\<rfloor> - 1 else - bit_length (\<lceil>1 / a\<rceil> - 1))"

definition round_half_even :: "rat \<Rightarrow> int" where
  "round_half_even x =
     (let f = \<lfloor>x\<rfloor>; r = x - of_int f
      in if r < 1 / 2 then f else if r > 1 / 2 then f + 1 else if even f then f else f + 1)"

definition overflow_bound :: rat where
  "overflow_bound = 2 ^ 1024"

text \<open>
  The significand has 53 binary digits: its last place has the exponent \<open>p\<close>, 52 below
  the exponent of the value, and not below -1074, where the subnormal values lie.
\<close>

definition round_double :: "rat \<Rightarrow> number" where
  "round_double q =
     (if q = 0 then Num 0
      else
        let a = \<bar>q\<bar>;
            p = max (binary_exponent a - 52) (- 1074);
            v = of_int (round_half_even (a / pow2 p)) * pow2 p
        in if v \<ge> overflow_bound then (if q < 0 then NegInf else PosInf)
           else Num (if q < 0 then - v else v))"

text \<open>
  The operator \<open>+\<close>. Adding 0 changes nothing; every other sum of finite values is
  rounded.
\<close>

fun num_add :: "number \<Rightarrow> number \<Rightarrow> number" where
  "num_add NaN y = NaN"
| "num_add x NaN = NaN"
| "num_add (Num a) (Num b) =
     (if a = 0 then Num b else if b = 0 then Num a else round_double (a + b))"
| "num_add PosInf NegInf = NaN"
| "num_add NegInf PosInf = NaN"
| "num_add PosInf y = PosInf"
| "num_add x PosInf = PosInf"
| "num_add NegInf y = NegInf"
| "num_add x NegInf = NegInf"

text \<open>The sign of a number that is not \<open>NaN\<close>: -1, 0 or 1.\<close>

fun num_sign :: "number \<Rightarrow> int" where
  "num_sign NaN = 0"
| "num_sign (Num a) = (if a < 0 then -1 else if a = 0 then 0 else 1)"
| "num_sign PosInf = 1"
| "num_sign NegInf = -1"

fun num_mul :: "number \<Rightarrow> number \<Rightarrow> number" where
  "num_mul NaN y = NaN"
| "num_mul x NaN = NaN"
| "num_mul (Num a) (Num b) = round_double (a * b)"
| "num_mul x y =
     (if num_sign x * num_sign y = 0 then NaN
      else if num_sign x * num_sign y > 0 then PosInf else NegInf)"

fun num_gt :: "number \<Rightarrow> number \<Rightarrow> bool" where
  "num_gt NaN y = False"
| "num_gt x NaN = False"
| "num_gt (Num a) (Num b) = (a > b)"
| "num_gt PosInf y = (y \<noteq> PosInf)"
| "num_gt x PosInf = False"
| "num_gt x NegInf = (x \<noteq> NegInf)"
| "num_gt NegInf y = False"

fun isNaN :: "number \<Rightarrow> bool" where
  "isNaN NaN = True"
| "isNaN x = False"

text \<open>
  \<open>Math.round\<close>: the nearest integer, a tie going up. The result is exact: the
  integer nearest to a binary64 value is a binary64 value.
\<close>

fun Math_round :: "number \<Rightarrow> number" where
  "Math_round (Num a) = Num (of_int \<lfloor>a + 1 / 2\<rfloor>)"
| "Math_round x = x"

definition digit_val :: "char \<Rightarrow> int" where
  "digit_val c = of_char c - 48"

definition digits_val :: "string \<Rightarrow> int" where
  "digits_val ds = foldl (\<lambda>n c. 10 * n + digit_val c) 0 ds"

text \<open>An optional sign in front of a numeral: its factor and the rest.\<close>

fun split_sign :: "string \<Rightarrow> rat \<times> string" where
  "split_sign (c # cs) =
     (if c = CHR ''-'' then (-1, cs) else if c = CHR ''+'' then (1, cs) else (1, c # cs))"
| "split_sign [] = (1, [])"

text \<open>
  The exponent part of a decimal literal, \<open>e\<close> or \<open>E\<close>, an optional sign and digits;
  it counts only when at least one digit follows.
\<close>

definition exponent_part :: "string \<Rightarrow> int" where
  "exponent_part s =
     (case s of
        [] \<Rightarrow> 0
      | c # cs \<Rightarrow>
          if c = CHR ''e'' \<or> c = CHR ''E'' then
            (let (sg, r) = split_sign cs; ds = takeWhile is_digit r
             in if ds = [] then 0 else (if sg < 0 then - digits_val ds else digits_val ds))
          else 0)"

definition pow10 :: "int \<Rightarrow> rat" where
  "pow10 e = (if e \<ge> 0 then 10 ^ nat e else 1 / 10 ^ nat (- e))"

text \<open>
  \<open>parseFloat\<close>: leading white space is skipped, then the longest prefix that is a
  decimal literal is read: an optional sign, then \<open>Infinity\<close>, or digits with an
  optional fraction and exponent, or a fraction that starts with the dot. \<open>NaN\<close> when
  no such prefix exists. The value of the literal is rounded to binary64; an engine may
  drop the digits after the twentieth significant one before it rounds, which the model
  does not do.
\<close>

definition parseFloat :: "string \<Rightarrow> number" where
  "parseFloat s =
     (let (sg, r) = split_sign (dropWhile is_space s) in
      if prefix ''Infinity'' r then (if sg < 0 then NegInf else PosInf)
      else
        let ip = takeWhile is_digit r;
            r1 = dropWhile is_digit r;
            fp = (case r1 of [] \<Rightarrow> [] | c # cs \<Rightarrow> if c = CHR ''.'' then takeWhile is_digit cs else []);
            r2 = (case r1 of [] \<Rightarrow> [] | c # cs \<Rightarrow> if c = CHR ''.'' then dropWhile is_digit cs else r1)
        in if ip = [] \<and> fp = [] then NaN
           else round_double
                  (sg * (of_int (digits_val ip) + of_int (digits_val fp) / 10 ^ length fp)
                     * pow10 (exponent_part r2)))"

text \<open>
  \<open>parseInt(s, 10)\<close>: white space, an optional sign, the longest run of digits; the
  integer they spell is rounded to binary64, with all of its digits.
\<close>

definition parseInt :: "string \<Rightarrow> number" where
  "parseInt s =
     (let (sg, r) = split_sign (dropWhile is_space s); ds = takeWhile is_digit r
      in if ds = [] then NaN else round_double (sg * of_int (digits_val ds)))"

section \<open>Numeric-text parser (src/lib/youtube-likes.ts, lines 271-292)\<close>

definition parseLikeCountText :: "string \<Rightarrow> number" where
  "parseLikeCountText text =
     (let cleanText = filter (\<lambda>c. is_word_char c \<or> c = CHR ''.'') text in
      if str_includes cleanText ''K'' then
        (let num = parseFloat (replace_first ''K'' [] cleanText)
         in if isNaN num then Num 0 else Math_round (num_mul num (Num 1000)))
      else if str_includes cleanText ''M'' then
        (let num = parseFloat (replace_first ''M'' [] cleanText)
         in if isNaN num then Num 0 else Math_round (num_mul num (Num 1000000)))
      else if str_includes cleanText ''B'' then
        (let num = parseFloat (replace_first ''B'' [] cleanText)
         in if isNaN num then Num 0 else Math_round (num_mul num (Num 1000000000)))
      else
        (let number = parseInt cleanText
         in if isNaN number then Num 0 else number))"

section \<open>Identifier extractors (lines 294-317)\<close>

text \<open>The class \<open>[^&\n?#]\<close> of the video id.\<close>

definition id_char :: "char \<Rightarrow> bool" where
  "id_char c \<longleftrightarrow> c \<notin> set [CHR ''&'', CHR 0x0A, CHR ''?'', CHR ''#'']"

text \<open>
  The expression \<open>(?:youtube\.com\/watch\?v=|youtu\.be\/)([^&\n?#]+)\<close> at the start
  of \<open>s\<close>: the first alternative and the group, and when that fails the second
  alternative and the group. The result is the group.
\<close>

definition video_match_here :: "string \<Rightarrow> string option" where
  "video_match_here s =
     (case (if prefix ''youtube.com/watch?v='' s
            then group_plus id_char (drop (length ''youtube.com/watch?v='') s) else None) of
        Some g \<Rightarrow> Some g
      | None \<Rightarrow>
          if prefix ''youtu.be/'' s then group_plus id_char (drop (length ''youtu.be/'') s)
          else None)"

definition extractVideoId :: "string \<Rightarrow> string option" where
  "extractVideoId url = match_first video_match_here url"

text \<open>
  \<open>new URL(url)\<close> throws a \<open>TypeError\<close> on a string it cannot parse. With no base URL
  the URL parser fails on every input that does not begin with a scheme: after the
  leading control characters and spaces are dropped and tabs and newlines are removed,
  a letter, then letters, digits, \<open>+\<close>, \<open>-\<close> or \<open>.\<close>, then a colon. What the parser
  does with an input that has a scheme (authority, host, port, path normalisation) is
  not modelled: it is the field \<open>url_rest\<close> of the platform, which gives the pathname
  of the parsed URL, or \<open>None\<close> when the parser fails later on.
\<close>

datatype js_error = TypeError string

fun message :: "js_error \<Rightarrow> string" where
  "message (TypeError m) = m"

record platform =
  url_rest :: "string \<Rightarrow> string option"
  invalid_url_message :: string

definition has_scheme :: "string \<Rightarrow> bool" where
  "has_scheme url =
     (let s = filter (\<lambda>c. c \<notin> set [CHR 0x09, CHR 0x0A, CHR 0x0D])
                (dropWhile (\<lambda>c. (of_char c :: nat) \<le> 32) url)
      in case s of
           [] \<Rightarrow> False
         | c # cs \<Rightarrow>
             is_alpha c \<and>
             (case dropWhile (\<lambda>c. is_alpha c \<or> is_digit c \<or> c \<in> set ''+-.'') cs of
                [] \<Rightarrow> False
              | d # ds \<Rightarrow> d = CHR '':''))"

definition URL_pathname :: "platform \<Rightarrow> string \<Rightarrow> js_error + string" where
  "URL_pathname pf url =
     (if has_scheme url then
        (case url_rest pf url of
           Some pathname \<Rightarrow> Inr pathname
         | None \<Rightarrow> Inl (TypeError (invalid_url_message pf)))
      else Inl (TypeError (invalid_url_message pf)))"

text \<open>
  The three patterns \<open>^\/channel\/([^\/]+)\<close>, \<open>^\/c\/([^\/]+)\<close> and \<open>^\/@([^\/]+)\<close>,
  each by its literal prefix: anchored at the start of the pathname, then the group.
\<close>

definition channel_patterns :: "string list" where
  "channel_patterns = [''/channel/'', ''/c/'', ''/@'']"

definition channel_match :: "string \<Rightarrow> string \<Rightarrow> string option" where
  "channel_match pathname pat =
     (if prefix pat pathname then group_plus (\<lambda>c. c \<noteq> CHR ''/'') (drop (length pat) pathname)
      else None)"

definition extractChannelId :: "platform \<Rightarrow> string \<Rightarrow> js_error + string option" where
  "extractChannelId pf url =
     (case URL_pathname pf url of
        Inl e \<Rightarrow> Inl e
      | Inr pathname \<Rightarrow> Inr (first_some (channel_match pathname) channel_patterns))"

section \<open>Values typed \<open>any\<close>\<close>

text \<open>
  The blobs that the page leaves on \<open>window\<close> are typed \<open>any\<close>. A value is a primitive
  or a reference into a heap of objects and arrays, so that an object graph can share
  and can be cyclic. An object is the list of its own enumerable properties in the
  order of \<open>Object.entries\<close>. Properties inherited from a prototype are not modelled;
  the source reads none of them.
\<close>

datatype jsval = JUndefined | JNull | JBool bool | JNum number | JStr string | JRef nat

datatype jsobj = JObject "(string \<times> jsval) list" | JArray "jsval list"

type_synonym heap = "nat \<Rightarrow> jsobj"

fun truthy :: "jsval \<Rightarrow> bool" where
  "truthy JUndefined = False"
| "truthy JNull = False"
| "truthy (JBool b) = b"
| "truthy (JNum n) = (n \<noteq> Num 0 \<and> n \<noteq> NaN)"
| "truthy (JStr s) = (s \<noteq> [])"
| "truthy (JRef a) = True"

section \<open>Data model (src/lib/youtube-likes.ts, lines 1-22)\<close>

text \<open>
  The three interfaces. The field \<open>id\<close> of \<open>VideoData\<close> is \<open>id'\<close> here, and an optional
  field is an \<open>option\<close>. The field \<open>channelName\<close> is declared a \<open>string\<close>; the analyzer
  stores in it what the channel-name locator returns, which may come out of the page
  state typed \<open>any\<close>, so the field holds a value, and a string \<open>s\<close> is \<open>JStr s\<close>.
\<close>

record VideoData =
  id' :: string
  title :: string
  videoUrl :: string
  likeCount :: number

record ChannelData =
  channelId :: string
  channelName :: jsval
  totalLikes :: number
  videoCount :: nat
  videos :: "VideoData list"
  lastUpdated :: int

record ExtractionResult =
  success :: bool
  data :: "ChannelData option"
  error :: "string option"

section \<open>The insertion-ordered Map of the aggregator\<close>

text \<open>
  A JavaScript \<open>Map\<close> keeps its keys in insertion order. \<open>set\<close> on a key that is
  present replaces the value where it stands; on a new key it appends the entry.
  \<open>new Map(pairs)\<close> sets the pairs one after the other, and \<open>values()\<close> lists the
  values in the order of the entries.
\<close>

fun map_set :: "('k \<times> 'v) list \<Rightarrow> 'k \<Rightarrow> 'v \<Rightarrow> ('k \<times> 'v) list" where
  "map_set [] k v = [(k, v)]"
| "map_set ((k', v') # m) k v =
     (if k' = k then (k', v) # m else (k', v') # map_set m k v)"

definition new_Map :: "('k \<times> 'v) list \<Rightarrow> ('k \<times> 'v) list" where
  "new_Map pairs = foldl (\<lambda>m (k, v). map_set m k v) [] pairs"

definition map_values :: "('k \<times> 'v) list \<Rightarrow> 'v list" where
  "map_values m = map snd m"

section \<open>Aggregator (lines 397-399 and 444-461)\<close>

definition calculateTotalLikes :: "VideoData list \<Rightarrow> number" where
  "calculateTotalLikes vs = foldl (\<lambda>sum video. num_add sum (likeCount video)) (Num 0) vs"

text \<open>\<open>now\<close> is the value of \<open>Date.now()\<close> at the call.\<close>

definition mergeChannelData :: "int \<Rightarrow> ChannelData \<Rightarrow> ChannelData \<Rightarrow> ChannelData" where
  "mergeChannelData now existingData newData =
     (let videoMap = new_Map (map (\<lambda>v. (id' v, v)) (videos existingData));
          videoMap' = foldl (\<lambda>m video. map_set m (id' video) video) videoMap (videos newData);
          allVideos = map_values videoMap'
      in \<lparr> channelId = channelId existingData,
           channelName = (if truthy (channelName newData) then channelName newData
                          else channelName existingData),
           totalLikes = calculateTotalLikes allVideos,
           videoCount = length allVideos,
           videos = allVideos,
           lastUpdated = now \<rparr>)"

text \<open>
  The invariants of the data model, with the total as \<open>calculateTotalLikes\<close> computes
  it: the total is the sum over the videos, the count is their number, and no two
  records share an id.
\<close>

definition aggregate_inv :: "ChannelData \<Rightarrow> bool" where
  "aggregate_inv a \<longleftrightarrow>
     totalLikes a = calculateTotalLikes (videos a) \<and>
     videoCount a = length (videos a) \<and>
     distinct (map id' (videos a))"

text \<open>
  The sum of the like counts as the specification means it: the data model declares a
  like count a non-negative integer, and the sum is taken in the integers, without
  rounding. \<open>whole\<close> holds of the numbers that are such integers, \<open>whole_val\<close> is the
  integer, and \<open>exact_range\<close> holds of a list of records whose like counts are whole and
  add up to \<open>2 ^ 53\<close> at most, the range in which binary64 holds every integer.
  \<open>whole_or_infinite\<close> admits \<open>Infinity\<close> as well, the number that a text of more than
  308 digits parses to.
\<close>

definition whole :: "number \<Rightarrow> bool" where
  "whole x = (case x of Num q \<Rightarrow> 0 \<le> q \<and> of_int \<lfloor>q\<rfloor> = q | _ \<Rightarrow> False)"

definition whole_val :: "number \<Rightarrow> int" where
  "whole_val x = (case x of Num q \<Rightarrow> \<lfloor>q\<rfloor> | _ \<Rightarrow> 0)"

definition sum_of_likes :: "VideoData list \<Rightarrow> int" where
  "sum_of_likes vs = sum_list (map (\<lambda>v. whole_val (likeCount v)) vs)"

definition exact_range :: "VideoData list \<Rightarrow> bool" where
  "exact_range vs \<longleftrightarrow> list_all (\<lambda>v. whole (likeCount v)) vs \<and> sum_of_likes vs \<le> 2 ^ 53"

definition whole_or_infinite :: "number \<Rightarrow> bool" where
  "whole_or_infinite x \<longleftrightarrow> whole x \<or> x = PosInf"

text \<open>
  The invariants of the data model with the sum spelled out: the count, the ids, the
  total as the sum that binary64 gives when it adds the like counts from left to right,
  and the total as the sum in the integers when the like counts are in the exact range.
\<close>

definition data_model_invariants :: "ChannelData \<Rightarrow> bool" where
  "data_model_invariants a \<longleftrightarrow>
     videoCount a = length (videos a) \<and>
     distinct (map id' (videos a)) \<and>
     totalLikes a = foldl num_add (Num 0) (map likeCount (videos a)) \<and>
     (exact_range (videos a) \<longrightarrow> totalLikes a = Num (of_int (sum_of_likes (videos a))))"

section \<open>Reading the page state\<close>

definition digit_char :: "nat \<Rightarrow> char" where
  "digit_char n = char_of (48 + n)"

function show_nat :: "nat \<Rightarrow> string" where
  "show_nat n = (if n < 10 then [digit_char n] else show_nat (n div 10) @ [digit_char (n mod 10)])"
  by pat_completeness auto
termination
  by (relation "measure (\<lambda>n. n)") auto

declare show_nat.simps [simp del]

text \<open>\<open>Object.entries\<close>: the index keys of an array are its positions in decimal.\<close>

fun entries :: "jsobj \<Rightarrow> (string \<times> jsval) list" where
  "entries (JObject props) = props"
| "entries (JArray xs) = zip (map show_nat [0..<length xs]) xs"

text \<open>\<open>v.k\<close> on a value that is neither \<open>null\<close> nor \<open>undefined\<close>.\<close>

fun get_prop :: "heap \<Rightarrow> jsval \<Rightarrow> string \<Rightarrow> jsval" where
  "get_prop h (JRef a) k =
     (case h a of
        JObject props \<Rightarrow> (case map_of props k of Some x \<Rightarrow> x | None \<Rightarrow> JUndefined)
      | JArray xs \<Rightarrow> (if k = ''length'' then JNum (Num (of_nat (length xs))) else JUndefined))"
| "get_prop h (JStr s) k = (if k = ''length'' then JNum (Num (of_nat (length s))) else JUndefined)"
| "get_prop h v k = JUndefined"

text \<open>\<open>v[i]\<close> on a value that is neither \<open>null\<close> nor \<open>undefined\<close>.\<close>

fun get_index :: "heap \<Rightarrow> jsval \<Rightarrow> nat \<Rightarrow> jsval" where
  "get_index h (JRef a) i =
     (case h a of
        JObject props \<Rightarrow> (case map_of props (show_nat i) of Some x \<Rightarrow> x | None \<Rightarrow> JUndefined)
      | JArray xs \<Rightarrow> (if i < length xs then xs ! i else JUndefined))"
| "get_index h (JStr s) i = (if i < length s then JStr [s ! i] else JUndefined)"
| "get_index h v i = JUndefined"

text \<open>Optional chaining, \<open>v?.k\<close> and \<open>v?.[i]\<close>.\<close>

definition opt :: "heap \<Rightarrow> jsval \<Rightarrow> string \<Rightarrow> jsval" where
  "opt h v k = (if v = JUndefined \<or> v = JNull then JUndefined else get_prop h v k)"

definition opt_index :: "heap \<Rightarrow> jsval \<Rightarrow> nat \<Rightarrow> jsval" where
  "opt_index h v i = (if v = JUndefined \<or> v = JNull then JUndefined else get_index h v i)"

definition opt_path :: "heap \<Rightarrow> jsval \<Rightarrow> string list \<Rightarrow> jsval" where
  "opt_path h v ks = foldl (opt h) v ks"

text \<open>
  \<open>for (const x of v)\<close> on a truthy value: an array gives its elements, a string its
  characters, and anything else is not iterable, which throws.
\<close>

fun iterate :: "heap \<Rightarrow> jsval \<Rightarrow> js_error + jsval list" where
  "iterate h (JRef a) =
     (case h a of
        JArray xs \<Rightarrow> Inr xs
      | JObject props \<Rightarrow> Inl (TypeError ''contents is not iterable''))"
| "iterate h (JStr s) = Inr (map (\<lambda>c. JStr [c]) s)"
| "iterate h v = Inl (TypeError ''contents is not iterable'')"

text \<open>
  A loop whose body returns a value (\<open>Inr (Some y)\<close>), goes on to the next element
  (\<open>Inr None\<close>) or throws (\<open>Inl e\<close>).
\<close>

fun loop_until :: "('a \<Rightarrow> js_error + 'b option) \<Rightarrow> 'a list \<Rightarrow> js_error + 'b option" where
  "loop_until f [] = Inr None"
| "loop_until f (x # xs) =
     (case f x of
        Inl e \<Rightarrow> Inl e
      | Inr (Some y) \<Rightarrow> Inr (Some y)
      | Inr None \<Rightarrow> loop_until f xs)"

record Window =
  heap :: heap
  ytInitialData :: jsval
  ytInitialPlayerResponse :: jsval

section \<open>The structured-state strategies for the like count (lines 74-137)\<close>

text \<open>
  \<open>parseLikeCountText\<close> on a value typed \<open>any\<close>: \<open>text.replace\<close> exists on a string
  only, on any other truthy value the call throws.
\<close>

definition parseLikeCountText_any :: "jsval \<Rightarrow> js_error + number" where
  "parseLikeCountText_any v =
     (case v of
        JStr s \<Rightarrow> Inr (parseLikeCountText s)
      | _ \<Rightarrow> Inl (TypeError ''text.replace is not a function''))"

definition watch_contents :: "heap \<Rightarrow> jsval \<Rightarrow> jsval" where
  "watch_contents h d =
     opt_path h d [''contents'', ''twoColumnWatchNextResults'', ''results'', ''results'', ''contents'']"

definition likeButton_of :: "heap \<Rightarrow> jsval \<Rightarrow> jsval" where
  "likeButton_of h videoInfo =
     opt_path h
       (opt_index h (opt_path h videoInfo [''videoActions'', ''menuRenderer'', ''topLevelButtons'']) 0)
       [''segmentedLikeDislikeButtonRenderer'', ''likeButton'', ''toggleButtonRenderer'']"

definition like_of_content :: "heap \<Rightarrow> jsval \<Rightarrow> js_error + number option" where
  "like_of_content h content =
     (if truthy (opt h content ''videoPrimaryInfoRenderer'') then
        (let videoInfo = get_prop h content ''videoPrimaryInfoRenderer'';
             likeButton = likeButton_of h videoInfo
         in if truthy (opt_path h likeButton [''defaultText'', ''simpleText'']) then
              (let likeText = get_prop h (get_prop h likeButton ''defaultText'') ''simpleText''
               in case parseLikeCountText_any likeText of
                    Inl e \<Rightarrow> Inl e
                  | Inr count \<Rightarrow>
                      if num_gt count (Num 0) then Inr (Some count) else Inr None)
            else Inr None)
      else Inr None)"

text \<open>The \<open>try\<close> block of \<open>extractFromYtInitialData\<close>, and the function with its \<open>catch\<close>.\<close>

definition extractFromYtInitialData_try :: "heap \<Rightarrow> jsval \<Rightarrow> js_error + number option" where
  "extractFromYtInitialData_try h d =
     (let contents = watch_contents h d
      in if truthy contents then
           (case iterate h contents of
              Inl e \<Rightarrow> Inl e
            | Inr items \<Rightarrow> loop_until (like_of_content h) items)
         else Inr None)"

definition extractFromYtInitialData :: "heap \<Rightarrow> jsval \<Rightarrow> number option" where
  "extractFromYtInitialData h d =
     (case extractFromYtInitialData_try h d of Inl e \<Rightarrow> None | Inr r \<Rightarrow> r)"

text \<open>
  The loop over the entries of one object in \<open>searchForLikeCount\<close>; \<open>search\<close> is the
  recursive call. Its result is \<open>None\<close> when the recursion did not return, \<open>Some None\<close>
  for \<open>null\<close> and \<open>Some (Some n)\<close> for a like count.
\<close>

fun search_entries ::
  "(jsval \<Rightarrow> number option option) \<Rightarrow> (string \<times> jsval) list \<Rightarrow> number option option" where
  "search_entries search [] = Some None"
| "search_entries search ((key, v) # rest) =
     (case (if str_includes (toLowerCase key) ''like'' then
              (case v of
                 JStr s \<Rightarrow>
                   (let count = parseLikeCountText s
                    in if num_gt count (Num 0) then Some count else None)
               | _ \<Rightarrow> None)
            else None) of
        Some count \<Rightarrow> Some (Some count)
      | None \<Rightarrow>
          (case v of
             JRef a \<Rightarrow>
               (case search (JRef a) of
                  None \<Rightarrow> None
                | Some (Some r) \<Rightarrow> Some (Some r)
                | Some None \<Rightarrow> search_entries search rest)
           | _ \<Rightarrow> search_entries search rest))"

text \<open>
  \<open>searchForLikeCount\<close> (lines 106-127), with the depth of nested calls it may use as
  its first argument: at depth 0 the call does not return. The source has no bound of
  its own and keeps no set of visited objects; the \<open>path\<close> argument only feeds the log.
\<close>

fun searchForLikeCount :: "nat \<Rightarrow> heap \<Rightarrow> jsval \<Rightarrow> number option option" where
  "searchForLikeCount 0 h obj = None"
| "searchForLikeCount (Suc depth) h obj =
     (case obj of
        JRef a \<Rightarrow> search_entries (searchForLikeCount depth h) (entries (h a))
      | _ \<Rightarrow> Some None)"

text \<open>
  \<open>extractFromYtInitialDataAlternative\<close>: when the call stack of \<open>stack\<close> frames runs
  out, the engine throws a \<open>RangeError\<close>, which the \<open>catch\<close> turns into \<open>null\<close>.
\<close>

definition extractFromYtInitialDataAlternative :: "nat \<Rightarrow> heap \<Rightarrow> jsval \<Rightarrow> number option" where
  "extractFromYtInitialDataAlternative stack h d =
     (case searchForLikeCount stack h d of None \<Rightarrow> None | Some r \<Rightarrow> r)"

text \<open>
  The object below address \<open>a\<close> is nested at most \<open>n\<close> deep: every chain of references
  that starts at \<open>a\<close> ends within \<open>n\<close> objects. No such \<open>n\<close> exists for an object that
  lies on a cycle.
\<close>

fun nested_within :: "nat \<Rightarrow> heap \<Rightarrow> nat \<Rightarrow> bool" where
  "nested_within 0 h a = False"
| "nested_within (Suc n) h a =
     list_all (\<lambda>(k, v). case v of JRef b \<Rightarrow> nested_within n h b | _ \<Rightarrow> True) (entries (h a))"

section \<open>The document\<close>

text \<open>
  An element has a tag name (in lower case, as an HTML document keeps it), attributes
  and child nodes; the other nodes that count are text nodes. Comments add nothing to
  \<open>textContent\<close> or to a selector and are left out.
\<close>

datatype node = Element string "(string \<times> string) list" "node list" | Text string

record Document =
  doc_title :: string
  doc_children :: "node list"

fun textContent :: "node \<Rightarrow> string" where
  "textContent (Text s) = s"
| "textContent (Element tag attrs children) = concat (map textContent children)"

fun tagName :: "node \<Rightarrow> string" where
  "tagName (Element tag attrs children) = tag"
| "tagName (Text s) = []"

fun getAttribute :: "node \<Rightarrow> string \<Rightarrow> string option" where
  "getAttribute (Element tag attrs children) name = map_of attrs name"
| "getAttribute (Text s) name = None"

text \<open>
  The elements of a subtree in document order, each with its ancestor elements, the
  parent first.
\<close>

fun elements_under :: "node list \<Rightarrow> node \<Rightarrow> (node list \<times> node) list" where
  "elements_under anc (Text s) = []"
| "elements_under anc (Element tag attrs children) =
     (anc, Element tag attrs children)
       # concat (map (elements_under (Element tag attrs children # anc)) children)"

definition all_elements :: "Document \<Rightarrow> (node list \<times> node) list" where
  "all_elements doc = concat (map (elements_under []) (doc_children doc))"

text \<open>\<open>element.querySelectorAll('*')\<close>: the elements below \<open>element\<close>, without itself.\<close>

fun descendants :: "node \<Rightarrow> node list" where
  "descendants (Element tag attrs children) = map snd (concat (map (elements_under []) children))"
| "descendants (Text s) = []"

definition parentElement :: "node list \<Rightarrow> node option" where
  "parentElement anc = (case anc of [] \<Rightarrow> None | p # ps \<Rightarrow> Some p)"

text \<open>
  A selector of the source is a chain of simple selectors joined by the descendant
  combinator: a tag name, or an id (\<open>#x\<close> and \<open>[id="x"]\<close> select the same elements).
\<close>

datatype simple_selector = TagSel string | IdSel string

fun matches_simple :: "simple_selector \<Rightarrow> node \<Rightarrow> bool" where
  "matches_simple (TagSel t) el = (tagName el = t)"
| "matches_simple (IdSel i) el = (getAttribute el ''id'' = Some i)"

text \<open>The rest of a chain, innermost first, against the ancestors, parent first.\<close>

fun matches_ancestors :: "simple_selector list \<Rightarrow> node list \<Rightarrow> bool" where
  "matches_ancestors [] anc = True"
| "matches_ancestors (s # ss) [] = False"
| "matches_ancestors (s # ss) (a # anc) =
     ((matches_simple s a \<and> matches_ancestors ss anc) \<or> matches_ancestors (s # ss) anc)"

definition matches_chain :: "simple_selector list \<Rightarrow> node list \<times> node \<Rightarrow> bool" where
  "matches_chain chain e =
     (case rev chain of
        [] \<Rightarrow> False
      | s # ss \<Rightarrow> matches_simple s (snd e) \<and> matches_ancestors ss (fst e))"

definition querySelectorAll :: "Document \<Rightarrow> simple_selector list \<Rightarrow> node list" where
  "querySelectorAll doc chain = map snd (filter (matches_chain chain) (all_elements doc))"

section \<open>The like count from the document (lines 25-72 and 176-269)\<close>

text \<open>The expression \<open>^[\d.,]+[KMB]?$\<close>.\<close>

definition is_count_char :: "char \<Rightarrow> bool" where
  "is_count_char c \<longleftrightarrow> is_digit c \<or> c = CHR ''.'' \<or> c = CHR '',''"

definition is_count_text :: "string \<Rightarrow> bool" where
  "is_count_text s \<longleftrightarrow>
     takeWhile is_count_char s \<noteq> [] \<and>
     dropWhile is_count_char s \<in> set [[], ''K'', ''M'', ''B'']"

definition positive_count :: "string \<Rightarrow> number option" where
  "positive_count s =
     (let count = parseLikeCountText s
      in if num_gt count (Num 0) then Some count else None)"

text \<open>Method 1: \<open>[aria-label*="like"], [aria-label*="Like"]\<close>.\<close>

definition has_like_label :: "node \<Rightarrow> bool" where
  "has_like_label el =
     (case getAttribute el ''aria-label'' of
        None \<Rightarrow> False
      | Some v \<Rightarrow> str_includes v ''like'' \<or> str_includes v ''Like'')"

definition like_from_label :: "node \<Rightarrow> number option" where
  "like_from_label element =
     (let ariaLabel = getAttribute element ''aria-label'';
          text = trim (textContent element)
      in if text \<noteq> [] \<and>
            (case ariaLabel of
               None \<Rightarrow> False
             | Some l \<Rightarrow> l \<noteq> [] \<and> str_includes (toLowerCase l) ''like'')
         then (if is_count_text text then positive_count text else None)
         else None)"

text \<open>Method 2: \<open>button, [role="button"]\<close>, the first 20 of them.\<close>

definition is_button :: "node \<Rightarrow> bool" where
  "is_button el \<longleftrightarrow> tagName el = ''button'' \<or> getAttribute el ''role'' = Some ''button''"

definition like_from_child :: "node \<Rightarrow> number option" where
  "like_from_child child =
     (let childText = trim (textContent child)
      in if childText \<noteq> [] \<and> is_count_text childText then positive_count childText else None)"

definition like_from_button :: "node \<Rightarrow> number option" where
  "like_from_button button =
     (case getAttribute button ''aria-label'' of
        None \<Rightarrow> None
      | Some ariaLabel \<Rightarrow>
          if ariaLabel \<noteq> [] \<and> str_includes (toLowerCase ariaLabel) ''like''
          then first_some like_from_child (descendants button)
          else None)"

text \<open>
  Method 3: the short count texts whose parent element mentions \<open>like\<close> or \<open>thumb\<close>,
  the first 5 of them.
\<close>

definition potential_like :: "node list \<times> node \<Rightarrow> string option" where
  "potential_like e =
     (let text = trim (textContent (snd e))
      in if text \<noteq> [] \<and> is_count_text text \<and> length text < 10 then
           (case parentElement (fst e) of
              None \<Rightarrow> None
            | Some parent \<Rightarrow>
                (let parentText = toLowerCase (textContent parent)
                 in if str_includes parentText ''like'' \<or> str_includes parentText ''thumb''
                    then Some text else None))
         else None)"

definition extractLikeCountFromDOM :: "Document \<Rightarrow> number" where
  "extractLikeCountFromDOM document =
     (let likeElements = filter has_like_label (map snd (all_elements document))
      in case first_some like_from_label likeElements of
           Some count \<Rightarrow> count
         | None \<Rightarrow>
             (let allButtons = filter is_button (map snd (all_elements document))
              in case first_some like_from_button (take 20 allButtons) of
                   Some count \<Rightarrow> count
                 | None \<Rightarrow>
                     (let potentialLikeElements =
                            List.map_filter potential_like (all_elements document)
                      in case first_some positive_count (take 5 potentialLikeElements) of
                           Some count \<Rightarrow> count
                         | None \<Rightarrow> Num 0)))"

text \<open>
  \<open>extractLikeCount\<close> (lines 25-72) lists properties of \<open>window\<close> and the first script
  elements for the log, and then returns what the scan of the document gives. It calls
  none of the structured-state strategies.
\<close>

definition extractLikeCount :: "Window \<Rightarrow> Document \<Rightarrow> number" where
  "extractLikeCount window document = extractLikeCountFromDOM document"

section \<open>The channel name (lines 319-395)\<close>

text \<open>
  The owner text of one content item, and \<open>extractChannelNameFromYtInitialData\<close>: the
  first truthy owner text, whatever its type, and \<open>null\<close> when there is none or when
  the loop throws.
\<close>

definition owner_text :: "heap \<Rightarrow> jsval \<Rightarrow> jsval" where
  "owner_text h content =
     opt h
       (opt_index h
          (opt_path h content
             [''videoSecondaryInfoRenderer'', ''owner'', ''videoOwnerRenderer'', ''title'', ''runs''])
          0)
       ''text''"

definition extractChannelNameFromYtInitialData :: "heap \<Rightarrow> jsval \<Rightarrow> jsval" where
  "extractChannelNameFromYtInitialData h d =
     (let contents = watch_contents h d
      in if truthy contents then
           (case iterate h contents of
              Inl e \<Rightarrow> JNull
            | Inr items \<Rightarrow>
                (case filter (\<lambda>content. truthy (owner_text h content)) items of
                   [] \<Rightarrow> JNull
                 | content # rest \<Rightarrow> owner_text h content))
         else JNull)"

definition channel_selectors :: "simple_selector list list" where
  "channel_selectors =
     [[TagSel ''ytd-video-owner-renderer'', TagSel ''yt-formatted-string'', TagSel ''a''],
      [TagSel ''ytd-channel-name'', TagSel ''yt-formatted-string'', TagSel ''a''],
      [TagSel ''ytd-video-owner-renderer'', TagSel ''yt-formatted-string''],
      [TagSel ''ytd-channel-name'', TagSel ''yt-formatted-string''],
      [TagSel ''ytd-video-owner-renderer'', IdSel ''channel-name'', TagSel ''a''],
      [TagSel ''ytd-video-owner-renderer'', IdSel ''channel-name''],
      [IdSel ''owner-name'', TagSel ''a''],
      [IdSel ''owner-name'']]"

definition name_from_element :: "node \<Rightarrow> string option" where
  "name_from_element element =
     (let text = trim (textContent element) in if text \<noteq> [] then Some text else None)"

text \<open>
  \<open>extractChannelName\<close>: the owner text of the initial data, then the author of the
  player response, each returned as it is when it is truthy, then the first element of
  the document whose trimmed text is not empty, and \<open>null\<close> otherwise.
\<close>

definition extractChannelName :: "Window \<Rightarrow> Document \<Rightarrow> jsval" where
  "extractChannelName window document =
     (let name = (if truthy (ytInitialData window)
                  then extractChannelNameFromYtInitialData (heap window) (ytInitialData window)
                  else JNull)
      in if truthy name then name
         else
           (let author = (if truthy (ytInitialPlayerResponse window)
                          then opt_path (heap window) (ytInitialPlayerResponse window)
                                 [''videoDetails'', ''author'']
                          else JUndefined)
            in if truthy author then author
               else
                 (case first_some
                         (\<lambda>selector. first_some name_from_element (querySelectorAll document selector))
                         channel_selectors of
                    Some text \<Rightarrow> JStr text
                  | None \<Rightarrow> JNull)))"

section \<open>Page analyzer (lines 401-442)\<close>

text \<open>
  The \<open>try\<close> block: \<open>Inl\<close> is an exception thrown inside it. \<open>now\<close> is the value of
  \<open>Date.now()\<close>.
\<close>

definition analyzeYouTubePage_try ::
  "platform \<Rightarrow> int \<Rightarrow> Window \<Rightarrow> Document \<Rightarrow> string \<Rightarrow> js_error + ExtractionResult" where
  "analyzeYouTubePage_try pf now window document url =
     (case extractVideoId url of
        None \<Rightarrow> Inr \<lparr> success = False, data = None, error = Some ''Not a video page'' \<rparr>
      | Some videoId \<Rightarrow>
          if videoId = [] then
            Inr \<lparr> success = False, data = None, error = Some ''Not a video page'' \<rparr>
          else
            (let count = extractLikeCount window document;
                 name = extractChannelName window document
             in case extractChannelId pf url of
                  Inl e \<Rightarrow> Inl e
                | Inr found \<Rightarrow>
                    (let cid = (case found of
                                        None \<Rightarrow> videoId
                                      | Some c \<Rightarrow> if c \<noteq> [] then c else videoId);
                         videoData = \<lparr> id' = videoId,
                                       title = replace_first '' - YouTube'' [] (doc_title document),
                                       videoUrl = url,
                                       likeCount = count \<rparr>;
                         channelData = \<lparr> channelId = cid,
                                         channelName = (if truthy name then name
                                                        else JStr ''Unknown Channel''),
                                         totalLikes = count,
                                         videoCount = 1,
                                         videos = [videoData],
                                         lastUpdated = now \<rparr>
                     in Inr \<lparr> success = True, data = Some channelData, error = None \<rparr>)))"

text \<open>
  The function with its \<open>catch\<close>, which turns whatever was thrown into a failure that
  carries the message. \<open>Inl\<close> would be an exception that reaches the caller.
\<close>

definition analyzeYouTubePage ::
  "platform \<Rightarrow> int \<Rightarrow> Window \<Rightarrow> Document \<Rightarrow> string \<Rightarrow> js_error + ExtractionResult" where
  "analyzeYouTubePage pf now window document url =
     (case analyzeYouTubePage_try pf now window document url of
        Inl e \<Rightarrow> Inr \<lparr> success = False, data = None, error = Some (message e) \<rparr>
      | Inr r \<Rightarrow> Inr r)"

text \<open>
  The aggregates the system produces: the one of a successful analysis, and every merge
  of two aggregates it produced.
\<close>

inductive produced :: "platform \<Rightarrow> ChannelData \<Rightarrow> bool" for pf :: platform where
  analysed:
    "analyzeYouTubePage pf now window document url = Inr r \<Longrightarrow> success r \<Longrightarrow> data r = Some a
     \<Longrightarrow> produced pf a"
| merged:
    "produced pf a \<Longrightarrow> produced pf b \<Longrightarrow> produced pf (mergeChannelData now a b)"

section \<open>Example aggregates\<close>

definition ex_video :: "string \<Rightarrow> rat \<Rightarrow> VideoData" where
  "ex_video i n =
     \<lparr> id' = i, title = ''Some title'', videoUrl = ''https://www.youtube.com/watch?v='' @ i,
       likeCount = Num n \<rparr>"

definition ex_channel :: "VideoData list \<Rightarrow> rat \<Rightarrow> nat \<Rightarrow> ChannelData" where
  "ex_channel vs likes n =
     \<lparr> channelId = ''UC1'', channelName = JStr ''Some channel'', totalLikes = Num likes,
       videoCount = n, videos = vs, lastUpdated = 0 \<rparr>"



section \<open>Example pages\<close>

text \<open>
  A platform that knows the pathnames of the example URLs, a window without page
  state, and the document of the end-to-end scenario: a button labelled
  \<open>1,234 likes\<close> whose text is \<open>1.2K\<close>.
\<close>

definition ex_platform :: platform where
  "ex_platform =
     \<lparr> url_rest = (\<lambda>u. if u \<in> set [''https://www.youtube.com/watch?v=v1'',
                                       ''https://www.youtube.com/watch?v=v2'',
                                       ''https://www.youtube.com/watch?v=v3'']
                       then Some ''/watch''
                       else if u = ''https://www.youtube.com/@somechannel'' then Some ''/@somechannel''
                       else None),
       invalid_url_message = ''Invalid URL'' \<rparr>"

definition ex_window :: Window where
  "ex_window = \<lparr> heap = (\<lambda>a. JObject []), ytInitialData = JUndefined,
                 ytInitialPlayerResponse = JUndefined \<rparr>"

definition ex_document :: Document where
  "ex_document =
     \<lparr> doc_title = ''Some title - YouTube'',
       doc_children =
         [Element ''html'' []
            [Element ''body'' []
               [Element ''button'' [(''aria-label'', ''1,234 likes'')] [Text ''1.2K'']]]] \<rparr>"

definition ex_analysed :: ChannelData where
  "ex_analysed =
     \<lparr> channelId = ''v1'', channelName = JStr ''Unknown Channel'', totalLikes = Num 1200,
       videoCount = 1,
       videos = [\<lparr> id' = ''v1'', title = ''Some title'',
                   videoUrl = ''https://www.youtube.com/watch?v=v1'', likeCount = Num 1200 \<rparr>],
       lastUpdated = 17 \<rparr>"

text \<open>
  A watch page whose like button shows the text \<open>t\<close> and which names no channel, and
  the aggregate that its analysis gives for the video \<open>i\<close> with the count \<open>n\<close> at the
  time \<open>now\<close>.
\<close>

definition ex_count_document :: "string \<Rightarrow> Document" where
  "ex_count_document t =
     \<lparr> doc_title = ''Some title - YouTube'',
       doc_children =
         [Element ''html'' []
            [Element ''body'' []
               [Element ''button'' [(''aria-label'', ''like this video'')] [Text t]]]] \<rparr>"

definition ex_counted :: "string \<Rightarrow> rat \<Rightarrow> int \<Rightarrow> ChannelData" where
  "ex_counted i n now =
     \<lparr> channelId = i, channelName = JStr ''Unknown Channel'', totalLikes = Num n,
       videoCount = 1,
       videos = [\<lparr> id' = i, title = ''Some title'',
                   videoUrl = ''https://www.youtube.com/watch?v='' @ i, likeCount = Num n \<rparr>],
       lastUpdated = now \<rparr>"

text \<open>
  The page of the end-to-end scenario with the channel named in the element
  \<open>owner-name\<close>, and the aggregate that its analysis gives.
\<close>

definition ex_named_document :: Document where
  "ex_named_document =
     \<lparr> doc_title = ''Some title - YouTube'',
       doc_children =
         [Element ''html'' []
            [Element ''body'' []
               [Element ''div'' [(''id'', ''owner-name'')] [Element ''a'' [] [Text ''Real Name'']],
                Element ''button'' [(''aria-label'', ''1,234 likes'')] [Text ''1.2K'']]]] \<rparr>"

definition ex_named :: ChannelData where
  "ex_named =
     \<lparr> channelId = ''v1'', channelName = JStr ''Real Name'', totalLikes = Num 1200,
       videoCount = 1,
       videos = [\<lparr> id' = ''v1'', title = ''Some title'',
                   videoUrl = ''https://www.youtube.com/watch?v=v1'', likeCount = Num 1200 \<rparr>],
       lastUpdated = 16 \<rparr>"

text \<open>
  A page state of the known shape that holds the like text \<open>1.2K\<close>, on a page whose
  document shows no count; an object that refers to itself; a state two objects deep;
  and a chain of \<open>n + 1\<close> objects, each but the last holding the next one, which has
  no cycle and is nested \<open>n + 1\<close> deep.
\<close>

definition ex_state_heap :: heap where
  "ex_state_heap =
     (\<lambda>a. if a = 0 then JObject [(''contents'', JRef 1)]
          else if a = 1 then JObject [(''twoColumnWatchNextResults'', JRef 2)]
          else if a = 2 then JObject [(''results'', JRef 3)]
          else if a = 3 then JObject [(''results'', JRef 4)]
          else if a = 4 then JObject [(''contents'', JRef 5)]
          else if a = 5 then JArray [JRef 6]
          else if a = 6 then JObject [(''videoPrimaryInfoRenderer'', JRef 7)]
          else if a = 7 then JObject [(''videoActions'', JRef 8)]
          else if a = 8 then JObject [(''menuRenderer'', JRef 9)]
          else if a = 9 then JObject [(''topLevelButtons'', JRef 10)]
          else if a = 10 then JArray [JRef 11]
          else if a = 11 then JObject [(''segmentedLikeDislikeButtonRenderer'', JRef 12)]
          else if a = 12 then JObject [(''likeButton'', JRef 13)]
          else if a = 13 then JObject [(''toggleButtonRenderer'', JRef 14)]
          else if a = 14 then JObject [(''defaultText'', JRef 15)]
          else if a = 15 then JObject [(''simpleText'', JStr ''1.2K'')]
          else JObject [])"

definition ex_state_window :: Window where
  "ex_state_window = \<lparr> heap = ex_state_heap, ytInitialData = JRef 0,
                       ytInitialPlayerResponse = JUndefined \<rparr>"

definition ex_bare_document :: Document where
  "ex_bare_document =
     \<lparr> doc_title = ''Some title - YouTube'',
       doc_children = [Element ''html'' [] [Element ''body'' [] []]] \<rparr>"

definition ex_cyclic_heap :: heap where
  "ex_cyclic_heap = (\<lambda>a. JObject [(''self'', JRef 0)])"

definition ex_nested_heap :: heap where
  "ex_nested_heap =
     (\<lambda>a. if a = 0 then JObject [(''title'', JStr ''x''), (''inner'', JRef 1)]
          else if a = 1 then JObject [(''likeText'', JStr ''1.2K'')]
          else JObject [])"

definition ex_chain_heap :: "nat \<Rightarrow> heap" where
  "ex_chain_heap n = (\<lambda>a. if a < n then JObject [(''next'', JRef (Suc a))] else JObject [])"

text \<open>
  Two merges of analysed aggregates: one of two videos with 1200 and 500 likes, and one
  of two videos with \<open>2 ^ 53\<close> likes and 1 like.
\<close>

definition ex_two_videos :: ChannelData where
  "ex_two_videos = mergeChannelData 19 ex_analysed (ex_counted ''v2'' 500 18)"

definition ex_rounded :: ChannelData where
  "ex_rounded =
     mergeChannelData 19 (ex_counted ''v2'' 9007199254740992 17) (ex_counted ''v3'' 1 18)"

section \<open>Facts about numbers\<close>

lemma overflow_bound_code [code]:
  "overflow_bound = 179769313486231590772930519078902473361797697894230657273430081157732675805500963132708477322407536021120113879871393357658789768814416622492847430639474124377767893424865485276302219601246094119453082952085005768838150682342462881473913110540827237163350510684586298239947245938479716304835356329624224137216"
  by (simp add: overflow_bound_def)

lemma bit_length_le: "k < 2 ^ n \<Longrightarrow> bit_length k \<le> int n"
proof (induction n arbitrary: k)
  case 0
  then show ?case by (simp add: bit_length.simps)
next
  case (Suc n)
  have "k div 2 < 2 ^ n" using Suc.prems by auto
  then have "bit_length (k div 2) \<le> int n" by (rule Suc.IH)
  then show ?case by (subst bit_length.simps) simp
qed

lemma bit_length_nonneg: "0 \<le> bit_length k"
  by (induction k rule: bit_length.induct) (subst bit_length.simps, simp)

lemma bit_length_pos: "0 < k \<Longrightarrow> 0 < bit_length k"
  using bit_length_nonneg[of "k div 2"] by (subst bit_length.simps) simp

lemma round_half_even_int: "round_half_even (of_int k) = k"
  by (simp add: round_half_even_def)

text \<open>Binary64 holds every integer from 0 to \<open>2 ^ 53\<close>.\<close>

lemma round_double_int_lt:
  assumes "0 \<le> n" and "n < 2 ^ 53"
  shows "round_double (of_int n) = Num (of_int n)"
proof (cases "n = 0")
  case True
  then show ?thesis by (simp add: round_double_def)
next
  case False
  then have pos: "0 < n" using assms(1) by simp
  define e where "e = bit_length n - 1"
  have e: "0 \<le> e" "e \<le> 52"
    using bit_length_le[OF assms(2)] bit_length_pos[OF pos] by (auto simp: e_def)
  have a: "(of_int n :: rat) \<ge> 1" using pos by simp
  have be: "binary_exponent (of_int n) = e"
    using a by (simp add: binary_exponent_def e_def)
  define j where "j = nat (52 - e)"
  have p: "max (e - 52) (- 1074) = - int j" using e by (simp add: j_def)
  have pw: "pow2 (- int j) = 1 / 2 ^ j" by (cases "j = 0") (simp_all add: pow2_def)
  have q: "(of_int n :: rat) / pow2 (- int j) = of_int (n * 2 ^ j)"
    by (simp add: pw)
  have v: "of_int (round_half_even ((of_int n :: rat) / pow2 (- int j))) * pow2 (- int j) = of_int n"
    by (simp only: q round_half_even_int) (simp add: pw)
  have "(of_int n :: rat) < 2 ^ 53"
    using assms(2) by (metis of_int_less_iff of_int_numeral of_int_power)
  also have "\<dots> < 2 ^ 1024" by simp
  finally have b: "\<not> (of_int n :: rat) \<ge> overflow_bound" by (simp add: overflow_bound_def)
  have nz: "(of_int n :: rat) \<noteq> 0" using False by simp
  have ab: "\<bar>of_int n :: rat\<bar> = of_int n" using assms(1) by simp
  have ng: "\<not> (of_int n :: rat) < 0" using assms(1) by simp
  show ?thesis
    unfolding round_double_def Let_def ab be p v using nz b ng by simp
qed

lemma round_double_int:
  assumes "0 \<le> n" and "n \<le> 2 ^ 53"
  shows "round_double (of_int n) = Num (of_int n)"
proof (cases "n = 2 ^ 53")
  case True
  have "round_double 9007199254740992 = Num 9007199254740992" by code_simp
  then show ?thesis using True by simp
next
  case False
  then have "n < 2 ^ 53" using assms(2) by simp
  with assms(1) show ?thesis by (rule round_double_int_lt)
qed

text \<open>The rounding of an integer is an integer, and so is every parsed like count.\<close>

lemma pow2_nonneg: "0 \<le> p \<Longrightarrow> pow2 p = of_int (2 ^ nat p)"
  by (simp add: pow2_def)

lemma pow2_neg: "p < 0 \<Longrightarrow> pow2 p = 1 / 2 ^ nat (- p)"
  by (simp add: pow2_def)

lemma round_double_of_int:
  assumes "round_double (of_int k) = Num q"
  shows "\<exists>i. q = of_int i"
proof (cases "k = 0")
  case True
  then have "q = 0" using assms by (simp add: round_double_def)
  then show ?thesis by (metis of_int_0)
next
  case False
  define a where "a = \<bar>of_int k :: rat\<bar>"
  define p where "p = max (binary_exponent a - 52) (- 1074)"
  define v where "v = of_int (round_half_even (a / pow2 p)) * pow2 p"
  have ak: "a = of_int \<bar>k\<bar>" by (simp add: a_def)
  have "\<exists>i. v = of_int i"
  proof (cases "0 \<le> p")
    case True
    have "v = of_int (round_half_even (a / pow2 p) * 2 ^ nat p)"
      by (simp add: v_def pow2_nonneg[OF True])
    then show ?thesis by blast
  next
    case False
    then have n: "p < 0" by simp
    have "a / pow2 p = of_int (\<bar>k\<bar> * 2 ^ nat (- p))"
      by (simp add: ak pow2_neg[OF n])
    then have "round_half_even (a / pow2 p) = \<bar>k\<bar> * 2 ^ nat (- p)"
      by (simp only: round_half_even_int)
    then have "v = of_int \<bar>k\<bar>" by (simp add: v_def pow2_neg[OF n])
    then show ?thesis by blast
  qed
  then obtain i where i: "v = of_int i" by blast
  have "q = v \<or> q = - v"
    using assms False
    by (auto simp: round_double_def Let_def a_def[symmetric] p_def[symmetric] v_def[symmetric]
        split: if_splits)
  then show ?thesis using i by (metis of_int_minus)
qed

lemma split_sign_fst: "fst (split_sign s) = 1 \<or> fst (split_sign s) = - 1"
  by (cases s) auto

lemma parseInt_int:
  assumes "parseInt s = Num q"
  shows "\<exists>i. q = of_int i"
proof -
  obtain sg r where sr: "split_sign (dropWhile is_space s) = (sg, r)" by (cases "split_sign (dropWhile is_space s)")
  have "sg = 1 \<or> sg = - 1" using split_sign_fst[of "dropWhile is_space s"] sr by simp
  then obtain k :: int where k: "sg * of_int (digits_val (takeWhile is_digit r)) = of_int k"
    by (metis mult_1 mult_minus1 of_int_minus)
  have "round_double (of_int k) = Num q"
    using assms sr k by (auto simp: parseInt_def Let_def split: if_splits)
  then show ?thesis by (rule round_double_of_int)
qed

lemma Math_round_int:
  assumes "Math_round x = Num q"
  shows "\<exists>i. q = of_int i"
  using assms by (cases x) auto

lemma parseLikeCountText_int:
  assumes "parseLikeCountText s = Num q"
  shows "\<exists>i. q = of_int i"
proof -
  have z: "\<exists>i. (0::rat) = of_int i" by (metis of_int_0)
  show ?thesis
    using assms z Math_round_int parseInt_int
    unfolding parseLikeCountText_def Let_def
    by (auto split: if_splits)
qed

lemma int_whole: "0 < q \<Longrightarrow> q = of_int i \<Longrightarrow> whole (Num q)"
  by (simp add: whole_def)

lemma round_double_numeral:
  "(numeral k :: int) \<le> 2 ^ 53 \<Longrightarrow> round_double (numeral k) = Num (numeral k)"
  using round_double_int[of "numeral k"] by simp

lemma num_add_zero: "num_add (Num 0) x = x"
  by (cases x) simp_all

lemma num_add_whole:
  assumes "0 \<le> a" and "0 \<le> b" and "a + b \<le> 2 ^ 53"
  shows "num_add (Num (of_int a)) (Num (of_int b)) = Num (of_int (a + b))"
proof -
  have "round_double (of_int a + of_int b) = Num (of_int (a + b))"
    using round_double_int[of "a + b"] assms by simp
  then show ?thesis by simp
qed

lemma whole_Num: "whole x \<Longrightarrow> x = Num (of_int (whole_val x)) \<and> 0 \<le> whole_val x"
  by (cases x) (auto simp: whole_def whole_val_def)

lemma sum_of_likes_nonneg: "list_all (\<lambda>v. whole (likeCount v)) vs \<Longrightarrow> 0 \<le> sum_of_likes vs"
  by (induction vs) (auto simp: sum_of_likes_def dest: whole_Num)

lemma sum_of_likes_Cons: "sum_of_likes (v # vs) = whole_val (likeCount v) + sum_of_likes vs"
  by (simp add: sum_of_likes_def)

lemma fold_exact:
  "list_all (\<lambda>v. whole (likeCount v)) vs \<Longrightarrow> 0 \<le> acc \<Longrightarrow> acc + sum_of_likes vs \<le> 2 ^ 53 \<Longrightarrow>
   foldl (\<lambda>sum video. num_add sum (likeCount video)) (Num (of_int acc)) vs
     = Num (of_int (acc + sum_of_likes vs))"
proof (induction vs arbitrary: acc)
  case Nil
  then show ?case by (simp add: sum_of_likes_def)
next
  case (Cons v vs)
  have w: "likeCount v = Num (of_int (whole_val (likeCount v)))" "0 \<le> whole_val (likeCount v)"
    using Cons.prems(1) whole_Num by auto
  have r: "list_all (\<lambda>v. whole (likeCount v)) vs" using Cons.prems(1) by simp
  have n: "0 \<le> sum_of_likes vs" using r by (rule sum_of_likes_nonneg)
  have b: "acc + whole_val (likeCount v) + sum_of_likes vs \<le> 2 ^ 53"
    using Cons.prems(3) by (simp add: sum_of_likes_Cons)
  have "num_add (Num (of_int acc)) (likeCount v) = Num (of_int (acc + whole_val (likeCount v)))"
    using num_add_whole[OF Cons.prems(2) w(2)] b n w(1) by simp
  moreover have "foldl (\<lambda>sum video. num_add sum (likeCount video))
                   (Num (of_int (acc + whole_val (likeCount v)))) vs
                 = Num (of_int (acc + whole_val (likeCount v) + sum_of_likes vs))"
    using Cons.IH[OF r _ b] Cons.prems(2) w(2) by simp
  ultimately show ?case by (simp add: sum_of_likes_Cons add.assoc)
qed

lemma total_exact:
  assumes "exact_range vs"
  shows "calculateTotalLikes vs = Num (of_int (sum_of_likes vs))"
  using fold_exact[of vs 0] assms by (simp add: exact_range_def calculateTotalLikes_def)

lemma total_fold: "calculateTotalLikes vs = foldl num_add (Num 0) (map likeCount vs)"
  by (simp add: calculateTotalLikes_def foldl_map)


lemma invariants_from_total:
  assumes "aggregate_inv a"
  shows "data_model_invariants a"
  using assms total_exact[of "videos a"] total_fold[of "videos a"]
  by (simp add: aggregate_inv_def data_model_invariants_def)

section \<open>Facts about the Map\<close>

lemma map_set_keys:
  "map fst (map_set m k v) = (if k \<in> fst ` set m then map fst m else map fst m @ [k])"
  by (induction m) (auto split: if_splits)

lemma map_set_distinct: "distinct (map fst m) \<Longrightarrow> distinct (map fst (map_set m k v))"
  by (simp add: map_set_keys)

lemma map_set_keyed:
  "\<forall>(k', v') \<in> set m. f v' = k' \<Longrightarrow> f v = k \<Longrightarrow> \<forall>(k', v') \<in> set (map_set m k v). f v' = k'"
  by (induction m) (auto split: if_splits)


lemma new_Map_videos: "new_Map (map (\<lambda>v. (id' v, v)) vs) = foldl (\<lambda>m video. map_set m (id' video) video) [] vs"
  by (simp add: new_Map_def foldl_map)

lemma foldl_set_distinct:
  "distinct (map fst m) \<Longrightarrow> distinct (map fst (foldl (\<lambda>m video. map_set m (id' video) video) m vs))"
  by (induction vs arbitrary: m) (simp_all add: map_set_distinct)

lemma foldl_set_keyed:
  "\<forall>(k', v') \<in> set m. id' v' = k' \<Longrightarrow>
   \<forall>(k', v') \<in> set (foldl (\<lambda>m video. map_set m (id' video) video) m vs). id' v' = k'"
proof (induction vs arbitrary: m)
  case Nil
  then show ?case by simp
next
  case (Cons x xs)
  have "\<forall>(k', v') \<in> set (map_set m (id' x) x). id' v' = k'"
    using Cons.prems by (rule map_set_keyed) simp
  then show ?case using Cons.IH by simp
qed

lemma keyed_ids: "\<forall>(k', v') \<in> set m. id' v' = k' \<Longrightarrow> map id' (map snd m) = map fst m"
  by (induction m) auto

lemma merge_videos:
  "videos (mergeChannelData now e n) =
   map snd (foldl (\<lambda>m video. map_set m (id' video) video) [] (videos e @ videos n))"
  by (simp add: mergeChannelData_def Let_def map_values_def new_Map_videos)

lemma merge_distinct: "distinct (map id' (videos (mergeChannelData now e n)))"
proof -
  let ?m = "foldl (\<lambda>m video. map_set m (id' video) video) [] (videos e @ videos n)"
  have k: "\<forall>(k', v') \<in> set ?m. id' v' = k'" by (rule foldl_set_keyed) simp
  have d: "distinct (map fst ?m)" by (rule foldl_set_distinct) simp
  have "map id' (map snd ?m) = map fst ?m" using k by (rule keyed_ids)
  with d have "distinct (map id' (map snd ?m))" by (simp only:)
  then show ?thesis by (simp only: merge_videos)
qed








lemma map_set_new: "k \<notin> fst ` set m \<Longrightarrow> map_set m k v = m @ [(k, v)]"
  by (induction m) auto

lemma map_set_same: "(k, v) \<in> set m \<Longrightarrow> distinct (map fst m) \<Longrightarrow> map_set m k v = m"
  by (induction m) (auto simp: rev_image_eqI)

lemma foldl_set_fresh:
  "distinct (map fst m @ map id' vs) \<Longrightarrow>
   foldl (\<lambda>m video. map_set m (id' video) video) m vs = m @ map (\<lambda>v. (id' v, v)) vs"
  by (induction vs arbitrary: m) (auto simp: map_set_new)

lemma foldl_set_again:
  "distinct (map fst m) \<Longrightarrow> \<forall>v \<in> set vs. (id' v, v) \<in> set m \<Longrightarrow>
   foldl (\<lambda>m video. map_set m (id' video) video) m vs = m"
  by (induction vs) (auto simp: map_set_same)

lemma merge_self_videos:
  assumes "distinct (map id' (videos a))"
  shows "videos (mergeChannelData now a a) = videos a"
proof -
  let ?f = "\<lambda>m video. map_set m (id' video) video"
  let ?p = "map (\<lambda>v. (id' v, v)) (videos a)"
  have 1: "foldl ?f [] (videos a) = ?p" using foldl_set_fresh[of "[]" "videos a"] assms by simp
  have "map fst ?p = map id' (videos a)" by (simp add: comp_def)
  then have "distinct (map fst ?p)" using assms by (simp only:)
  then have 2: "foldl ?f ?p (videos a) = ?p" by (rule foldl_set_again) auto
  have "foldl ?f [] (videos a @ videos a) = ?p" by (simp only: foldl_append 1 2)
  then have "videos (mergeChannelData now a a) = map snd ?p" by (simp only: merge_videos)
  then show ?thesis by (simp add: comp_def)
qed



lemma merge_total: "totalLikes (mergeChannelData now e n) = calculateTotalLikes (videos (mergeChannelData now e n))"
  by (simp add: mergeChannelData_def Let_def)

lemma merge_count: "videoCount (mergeChannelData now e n) = length (videos (mergeChannelData now e n))"
  by (simp add: mergeChannelData_def Let_def)




lemma map_set_values: "set (map snd (map_set m k v)) \<subseteq> insert v (set (map snd m))"
proof (induction m)
  case Nil
  then show ?case by simp
next
  case (Cons p m)
  obtain a b where p: "p = (a, b)" by (cases p)
  show ?case
  proof (cases "a = k")
    case True
    then show ?thesis using p by auto
  next
    case False
    then show ?thesis using p Cons.IH by auto
  qed
qed

lemma foldl_set_values:
  "set (map snd (foldl (\<lambda>m video. map_set m (id' video) video) m vs))
     \<subseteq> set (map snd m) \<union> set vs"
proof (induction vs arbitrary: m)
  case Nil
  then show ?case by simp
next
  case (Cons x xs)
  show ?case using Cons.IH[of "map_set m (id' x) x"] map_set_values[of m "id' x" x] by auto
qed

lemma merge_videos_subset:
  "set (videos (mergeChannelData now e n)) \<subseteq> set (videos e) \<union> set (videos n)"
  using foldl_set_values[of "[]" "videos e @ videos n"] by (simp add: merge_videos)

section \<open>Facts about the identifier extractors\<close>

lemma match_first_None: "match_first m s = None \<longleftrightarrow> (\<forall>i \<le> length s. m (drop i s) = None)"
proof (induction s)
  case Nil
  then show ?case by simp
next
  case (Cons c cs)
  have "(\<forall>i \<le> length (c # cs). m (drop i (c # cs)) = None)
        \<longleftrightarrow> m (c # cs) = None \<and> (\<forall>i \<le> length cs. m (drop i cs) = None)"
    (is "?L \<longleftrightarrow> ?R")
  proof
    assume l: ?L
    have "m (drop 0 (c # cs)) = None" using l by blast
    moreover have "\<forall>i \<le> length cs. m (drop i cs) = None"
    proof (intro allI impI)
      fix i assume "i \<le> length cs"
      then have "m (drop (Suc i) (c # cs)) = None" using l by (metis Suc_le_mono length_Cons)
      then show "m (drop i cs) = None" by simp
    qed
    ultimately show ?R by simp
  next
    assume r: ?R
    show ?L
    proof (intro allI impI)
      fix i assume "i \<le> length (c # cs)"
      then show "m (drop i (c # cs)) = None" using r by (cases i) auto
    qed
  qed
  then show ?case using Cons.IH by (simp split: option.splits)
qed

lemma match_first_Some:
  "match_first m s = Some r \<longleftrightarrow>
   (\<exists>i \<le> length s. m (drop i s) = Some r \<and> (\<forall>j < i. m (drop j s) = None))"
proof (induction s)
  case Nil
  then show ?case by simp
next
  case (Cons c cs)
  show ?case
  proof (cases "m (c # cs)")
    case None
    have "(\<exists>i \<le> length (c # cs). m (drop i (c # cs)) = Some r \<and> (\<forall>j < i. m (drop j (c # cs)) = None))
          \<longleftrightarrow> (\<exists>i \<le> length cs. m (drop i cs) = Some r \<and> (\<forall>j < i. m (drop j cs) = None))"
      (is "?L \<longleftrightarrow> ?R")
    proof
      assume ?L
      then obtain i where i: "i \<le> length (c # cs)" "m (drop i (c # cs)) = Some r"
        "\<forall>j < i. m (drop j (c # cs)) = None" by blast
      then obtain k where k: "i = Suc k" using None by (cases i) auto
      have "\<forall>j < k. m (drop j cs) = None"
      proof (intro allI impI)
        fix j assume "j < k"
        then have "m (drop (Suc j) (c # cs)) = None" using i(3) k by blast
        then show "m (drop j cs) = None" by simp
      qed
      then show ?R using i k by auto
    next
      assume ?R
      then obtain i where i: "i \<le> length cs" "m (drop i cs) = Some r"
        "\<forall>j < i. m (drop j cs) = None" by blast
      have "\<forall>j < Suc i. m (drop j (c # cs)) = None"
      proof (intro allI impI)
        fix j assume "j < Suc i"
        then show "m (drop j (c # cs)) = None" using i(3) None by (cases j) auto
      qed
      moreover have "Suc i \<le> length (c # cs)" "m (drop (Suc i) (c # cs)) = Some r"
        using i by auto
      ultimately show ?L by blast
    qed
    then show ?thesis using Cons.IH None by simp
  next
    case (Some a)
    have "(\<exists>i \<le> length (c # cs). m (drop i (c # cs)) = Some r \<and> (\<forall>j < i. m (drop j (c # cs)) = None))
          \<longleftrightarrow> a = r"
      (is "?L \<longleftrightarrow> _")
    proof
      assume ?L
      then obtain i where i: "m (drop i (c # cs)) = Some r"
        "\<forall>j < i. m (drop j (c # cs)) = None" by blast
      have "i = 0"
      proof (rule ccontr)
        assume "i \<noteq> 0"
        then have "m (drop 0 (c # cs)) = None" using i(2) by blast
        then show False using Some by simp
      qed
      then show "a = r" using i(1) Some by simp
    next
      assume "a = r"
      then have "m (drop 0 (c # cs)) = Some r \<and> (\<forall>j < 0. m (drop j (c # cs)) = None)"
        using Some by simp
      then show ?L by blast
    qed
    then show ?thesis using Some by simp
  qed
qed

lemma group_plus_Some:
  "group_plus P s = Some g \<longleftrightarrow>
   g \<noteq> [] \<and> (\<forall>c \<in> set g. P c) \<and> (\<exists>rest. s = g @ rest \<and> (rest = [] \<or> \<not> P (hd rest)))"
proof
  assume "group_plus P s = Some g"
  then have g: "g = takeWhile P s" "g \<noteq> []"
    by (auto simp: group_plus_def Let_def split: if_splits)
  have "s = g @ dropWhile P s" using g by simp
  moreover have "dropWhile P s = [] \<or> \<not> P (hd (dropWhile P s))"
    by (metis hd_dropWhile)
  moreover have "\<forall>c \<in> set g. P c" using g by (auto dest: set_takeWhileD)
  ultimately show "g \<noteq> [] \<and> (\<forall>c \<in> set g. P c) \<and> (\<exists>rest. s = g @ rest \<and> (rest = [] \<or> \<not> P (hd rest)))"
    using g(2) by blast
next
  assume a: "g \<noteq> [] \<and> (\<forall>c \<in> set g. P c) \<and> (\<exists>rest. s = g @ rest \<and> (rest = [] \<or> \<not> P (hd rest)))"
  then obtain rest where r: "s = g @ rest" "rest = [] \<or> \<not> P (hd rest)" by blast
  have "takeWhile P rest = []" using r(2) by (cases rest) auto
  then have "takeWhile P s = g" using a r(1) by (simp add: takeWhile_append2)
  then show "group_plus P s = Some g" using a by (simp add: group_plus_def)
qed

lemma group_plus_None: "group_plus P s = None \<longleftrightarrow> s = [] \<or> \<not> P (hd s)"
  by (cases s) (auto simp: group_plus_def)

lemma markers_disjoint: "prefix ''youtube.com/watch?v='' s \<Longrightarrow> \<not> prefix ''youtu.be/'' s"
  by (auto simp: prefix_def)

lemma vmh_eq:
  "video_match_here s =
     (if prefix ''youtube.com/watch?v='' s
      then group_plus id_char (drop (length ''youtube.com/watch?v='') s)
      else if prefix ''youtu.be/'' s then group_plus id_char (drop (length ''youtu.be/'') s)
      else None)"
proof (cases "prefix ''youtube.com/watch?v='' s")
  case True
  then have "\<not> prefix ''youtu.be/'' s" by (rule markers_disjoint)
  then show ?thesis using True by (simp add: video_match_here_def split: option.splits)
next
  case False
  then show ?thesis by (simp add: video_match_here_def)
qed

lemma vmh_Some:
  "video_match_here s = Some g \<longleftrightarrow>
   (\<exists>m \<in> {''youtube.com/watch?v='', ''youtu.be/''}. \<exists>rest.
      s = m @ g @ rest \<and> g \<noteq> [] \<and> (\<forall>c \<in> set g. id_char c) \<and> (rest = [] \<or> \<not> id_char (hd rest)))"
  (is "?L \<longleftrightarrow> ?R")
proof
  assume l: ?L
  show ?R
  proof (cases "prefix ''youtube.com/watch?v='' s")
    case True
    then obtain t where t: "s = ''youtube.com/watch?v='' @ t" by (auto simp: prefix_def)
    then have "group_plus id_char t = Some g" using l True by (simp add: vmh_eq)
    then show ?thesis using t by (auto simp: group_plus_Some)
  next
    case False
    then have p: "prefix ''youtu.be/'' s" using l by (auto simp: vmh_eq split: if_splits)
    then obtain t where t: "s = ''youtu.be/'' @ t" by (auto simp: prefix_def)
    then have "group_plus id_char t = Some g" using l False p by (simp add: vmh_eq)
    then show ?thesis using t by (auto simp: group_plus_Some)
  qed
next
  assume ?R
  then obtain m rest where m: "m = ''youtube.com/watch?v='' \<or> m = ''youtu.be/''"
    and r: "s = m @ g @ rest" "g \<noteq> []" "\<forall>c \<in> set g. id_char c" "rest = [] \<or> \<not> id_char (hd rest)"
    by blast
  have g: "group_plus id_char (g @ rest) = Some g" using r by (auto simp: group_plus_Some)
  from m show ?L
  proof
    assume "m = ''youtube.com/watch?v=''"
    then show ?L using r(1) g by (simp add: vmh_eq)
  next
    assume "m = ''youtu.be/''"
    then show ?L using r(1) g by (simp add: vmh_eq)
  qed
qed

lemma vmh_None:
  "video_match_here s = None \<longleftrightarrow>
   \<not> (\<exists>m \<in> {''youtube.com/watch?v='', ''youtu.be/''}. \<exists>c rest. s = m @ c # rest \<and> id_char c)"
  (is "?L \<longleftrightarrow> ?R")
proof
  assume l: ?L
  show ?R
  proof
    assume "\<exists>m \<in> {''youtube.com/watch?v='', ''youtu.be/''}. \<exists>c rest. s = m @ c # rest \<and> id_char c"
    then obtain m c rest where m: "m = ''youtube.com/watch?v='' \<or> m = ''youtu.be/''"
      and r: "s = m @ c # rest" "id_char c" by blast
    from m show False
    proof
      assume "m = ''youtube.com/watch?v=''"
      then show False using r l by (simp add: vmh_eq group_plus_None)
    next
      assume "m = ''youtu.be/''"
      then show False using r l by (simp add: vmh_eq group_plus_None)
    qed
  qed
next
  assume r: ?R
  show ?L
  proof (cases "prefix ''youtube.com/watch?v='' s")
    case True
    then obtain t where t: "s = ''youtube.com/watch?v='' @ t" by (auto simp: prefix_def)
    have "t = [] \<or> \<not> id_char (hd t)"
    proof (cases t)
      case Nil then show ?thesis by simp
    next
      case (Cons c cs)
      then have "\<not> id_char c" using r t by blast
      then show ?thesis using Cons by simp
    qed
    then show ?thesis using t True by (simp add: vmh_eq group_plus_None)
  next
    case False
    show ?thesis
    proof (cases "prefix ''youtu.be/'' s")
      case True
      then obtain t where t: "s = ''youtu.be/'' @ t" by (auto simp: prefix_def)
      have "t = [] \<or> \<not> id_char (hd t)"
      proof (cases t)
        case Nil then show ?thesis by simp
      next
        case (Cons c cs)
        then have "\<not> id_char c" using r t by blast
        then show ?thesis using Cons by simp
      qed
      then show ?thesis using t True False by (simp add: vmh_eq group_plus_None)
    next
      case f2: False
      then show ?thesis using False by (simp add: vmh_eq)
    qed
  qed
qed

lemma extractVideoId_None:
  "extractVideoId url = None \<longleftrightarrow>
   \<not> (\<exists>pre c rest. \<exists>m \<in> {''youtube.com/watch?v='', ''youtu.be/''}. url = pre @ m @ c # rest \<and> id_char c)"
  (is "?L \<longleftrightarrow> ?R")
proof
  assume l: ?L
  show ?R
  proof
    assume "\<exists>pre c rest. \<exists>m \<in> {''youtube.com/watch?v='', ''youtu.be/''}. url = pre @ m @ c # rest \<and> id_char c"
    then obtain pre c rest m where m: "m \<in> {''youtube.com/watch?v='', ''youtu.be/''}"
      and u: "url = pre @ m @ c # rest" "id_char c" by blast
    have "\<forall>i \<le> length url. video_match_here (drop i url) = None"
      using l unfolding extractVideoId_def match_first_None .
    moreover have "length pre \<le> length url" using u(1) by simp
    ultimately have "video_match_here (drop (length pre) url) = None" by blast
    then have "video_match_here (m @ c # rest) = None" using u(1) by simp
    then show False using m u unfolding vmh_None by auto
  qed
next
  assume r: ?R
  have "\<forall>i \<le> length url. video_match_here (drop i url) = None"
  proof (intro allI impI)
    fix i assume "i \<le> length url"
    show "video_match_here (drop i url) = None"
    proof (rule ccontr)
      assume "video_match_here (drop i url) \<noteq> None"
      then obtain m c rest where m: "m \<in> {''youtube.com/watch?v='', ''youtu.be/''}"
        and d: "drop i url = m @ c # rest" "id_char c" unfolding vmh_None by blast
      have "url = take i url @ m @ c # rest" using d(1) by (metis append_take_drop_id)
      then show False using r m d(2) by blast
    qed
  qed
  then show ?L unfolding extractVideoId_def match_first_None .
qed

lemma extractVideoId_Some:
  assumes "extractVideoId url = Some v"
  shows "v \<noteq> [] \<and> (\<forall>c \<in> set v. id_char c) \<and>
    (\<exists>pre rest. \<exists>m \<in> {''youtube.com/watch?v='', ''youtu.be/''}.
        url = pre @ m @ v @ rest \<and> (rest = [] \<or> \<not> id_char (hd rest)) \<and>
        (\<forall>j < length pre. video_match_here (drop j url) = None))"
proof -
  obtain i where i: "i \<le> length url" "video_match_here (drop i url) = Some v"
    "\<forall>j < i. video_match_here (drop j url) = None"
    using assms unfolding extractVideoId_def match_first_Some by blast
  obtain m rest where m: "m \<in> {''youtube.com/watch?v='', ''youtu.be/''}"
    and d: "drop i url = m @ v @ rest" "v \<noteq> []" "\<forall>c \<in> set v. id_char c"
       "rest = [] \<or> \<not> id_char (hd rest)"
    using i(2) unfolding vmh_Some by blast
  have u: "url = take i url @ m @ v @ rest" using d(1) by (metis append_take_drop_id)
  have "length (take i url) = i" using i(1) by simp
  then have "\<forall>j < length (take i url). video_match_here (drop j url) = None" using i(3) by simp
  then show ?thesis using m d u by blast
qed

lemma channel_match_Some:
  "channel_match p pat = Some seg \<longleftrightarrow>
   seg \<noteq> [] \<and> CHR ''/'' \<notin> set seg \<and>
   (\<exists>rest. p = pat @ seg @ rest \<and> (rest = [] \<or> hd rest = CHR ''/''))"
  (is "?L \<longleftrightarrow> ?R")
proof
  assume l: ?L
  then obtain t where t: "p = pat @ t" by (auto simp: channel_match_def prefix_def split: if_splits)
  then have "group_plus (\<lambda>c. c \<noteq> CHR ''/'') t = Some seg" using l by (simp add: channel_match_def)
  then show ?R using t by (auto simp: group_plus_Some)
next
  assume ?R
  then obtain rest where r: "seg \<noteq> []" "CHR ''/'' \<notin> set seg" "p = pat @ seg @ rest"
    "rest = [] \<or> hd rest = CHR ''/''" by blast
  have "group_plus (\<lambda>c. c \<noteq> CHR ''/'') (seg @ rest) = Some seg"
    unfolding group_plus_Some using r by auto
  then show ?L using r(3) by (simp add: channel_match_def)
qed

lemma channel_match_None:
  "channel_match p pat = None \<longleftrightarrow> \<not> (\<exists>c rest. p = pat @ c # rest \<and> c \<noteq> CHR ''/'')"
  (is "?L \<longleftrightarrow> ?R")
proof (cases "prefix pat p")
  case True
  then obtain t where t: "p = pat @ t" by (auto simp: prefix_def)
  show ?thesis
  proof (cases t)
    case Nil
    then show ?thesis using t by (simp add: channel_match_def group_plus_None)
  next
    case (Cons c cs)
    then show ?thesis using t by (auto simp: channel_match_def group_plus_None)
  qed
next
  case False
  then have "\<not> (\<exists>c rest. p = pat @ c # rest \<and> c \<noteq> CHR ''/'')" by (auto simp: prefix_def)
  then show ?thesis using False by (simp add: channel_match_def)
qed

lemma channel_prefix_exclusive:
  "prefix ''/channel/'' p \<Longrightarrow> \<not> prefix ''/c/'' p \<and> \<not> prefix ''/@'' p"
  "prefix ''/c/'' p \<Longrightarrow> \<not> prefix ''/@'' p"
  by (auto simp: prefix_def)

lemma channel_first_Some:
  "first_some (channel_match p) channel_patterns = Some seg \<longleftrightarrow>
   (\<exists>pat \<in> set channel_patterns. channel_match p pat = Some seg)"
proof -
  have 1: "channel_match p ''/channel/'' = Some x \<Longrightarrow>
       channel_match p ''/c/'' = None \<and> channel_match p ''/@'' = None" for x
    using channel_prefix_exclusive(1)[of p] by (auto simp: channel_match_def split: if_splits)
  have 2: "channel_match p ''/c/'' = Some x \<Longrightarrow> channel_match p ''/@'' = None" for x
    using channel_prefix_exclusive(2)[of p] by (auto simp: channel_match_def split: if_splits)
  show ?thesis
    using 1 2 by (auto simp: channel_patterns_def split: option.splits)
qed

lemma channel_first_None:
  "first_some (channel_match p) channel_patterns = None \<longleftrightarrow>
   (\<forall>pat \<in> set channel_patterns. channel_match p pat = None)"
  by (auto simp: channel_patterns_def split: option.splits)

lemma extractChannelId_spec:
  assumes "URL_pathname pf url = Inr p"
  shows "(extractChannelId pf url = Inr (Some seg) \<longleftrightarrow>
            seg \<noteq> [] \<and> CHR ''/'' \<notin> set seg \<and>
            (\<exists>pat \<in> set channel_patterns. \<exists>rest.
               p = pat @ seg @ rest \<and> (rest = [] \<or> hd rest = CHR ''/'')))"
    and "(extractChannelId pf url = Inr None \<longleftrightarrow>
            \<not> (\<exists>pat \<in> set channel_patterns. \<exists>c rest. p = pat @ c # rest \<and> c \<noteq> CHR ''/''))"
proof -
  have e: "extractChannelId pf url = Inr (first_some (channel_match p) channel_patterns)"
    using assms by (simp add: extractChannelId_def)
  show "(extractChannelId pf url = Inr (Some seg) \<longleftrightarrow>
            seg \<noteq> [] \<and> CHR ''/'' \<notin> set seg \<and>
            (\<exists>pat \<in> set channel_patterns. \<exists>rest.
               p = pat @ seg @ rest \<and> (rest = [] \<or> hd rest = CHR ''/'')))"
    unfolding e sum.inject channel_first_Some channel_match_Some by blast
  show "(extractChannelId pf url = Inr None \<longleftrightarrow>
            \<not> (\<exists>pat \<in> set channel_patterns. \<exists>c rest. p = pat @ c # rest \<and> c \<noteq> CHR ''/''))"
    unfolding e sum.inject channel_first_None channel_match_None by blast
qed

lemma extractChannelId_throws:
  "URL_pathname pf url = Inl e \<Longrightarrow> extractChannelId pf url = Inl e"
  by (simp add: extractChannelId_def)

lemma leftmost:
  assumes "\<forall>j < length pre. video_match_here (drop j url) = None"
     and "url = pre' @ m' @ c' # rest'" and "m' \<in> {''youtube.com/watch?v='', ''youtu.be/''}"
     and "id_char c'"
  shows "length pre \<le> length pre'"
proof (rule ccontr)
  assume "\<not> length pre \<le> length pre'"
  then have "video_match_here (drop (length pre') url) = None" using assms(1) by simp
  then have "video_match_here (m' @ c' # rest') = None" using assms(2) by simp
  then show False using assms(3,4) unfolding vmh_None by blast
qed

section \<open>Facts about the like count from the document\<close>

text \<open>
  Whatever the document holds, the like count that the scan returns is a whole number
  or \<open>Infinity\<close>: it is 0, or a parsed text that is greater than 0.
\<close>

lemma positive_count_whole:
  assumes "positive_count s = Some c"
  shows "whole_or_infinite c"
proof -
  have c: "c = parseLikeCountText s" and g: "num_gt c (Num 0)"
    using assms by (auto simp: positive_count_def Let_def split: if_splits)
  show ?thesis
  proof (cases c)
    case (Num q)
    then obtain i where "q = of_int i" using c parseLikeCountText_int by metis
    moreover have "0 < q" using g Num by simp
    ultimately show ?thesis using Num int_whole by (simp add: whole_or_infinite_def)
  qed (use g in \<open>auto simp: whole_or_infinite_def\<close>)
qed

lemma first_some_Some: "first_some f xs = Some c \<Longrightarrow> \<exists>x \<in> set xs. f x = Some c"
  by (induction xs) (auto split: option.splits)

lemma like_from_label_whole: "like_from_label e = Some c \<Longrightarrow> whole_or_infinite c"
  using positive_count_whole
  by (auto simp: like_from_label_def Let_def split: if_splits option.splits)

lemma like_from_child_whole: "like_from_child e = Some c \<Longrightarrow> whole_or_infinite c"
  using positive_count_whole
  by (auto simp: like_from_child_def Let_def split: if_splits)

lemma like_from_button_whole:
  assumes "like_from_button b = Some c"
  shows "whole_or_infinite c"
proof -
  have "first_some like_from_child (descendants b) = Some c"
    using assms by (auto simp: like_from_button_def split: option.splits if_splits)
  then obtain x where "like_from_child x = Some c" using first_some_Some by fastforce
  then show ?thesis by (rule like_from_child_whole)
qed

lemma extractLikeCountFromDOM_whole: "whole_or_infinite (extractLikeCountFromDOM document)"
proof -
  let ?l = "first_some like_from_label (filter has_like_label (map snd (all_elements document)))"
  let ?b = "first_some like_from_button
              (take 20 (filter is_button (map snd (all_elements document))))"
  let ?p = "first_some positive_count
              (take 5 (List.map_filter potential_like (all_elements document)))"
  have z: "whole_or_infinite (Num 0)" by (simp add: whole_or_infinite_def whole_def)
  show ?thesis
  proof (cases ?l)
    case (Some c)
    then obtain x where "like_from_label x = Some c" using first_some_Some by fastforce
    then have "whole_or_infinite c" by (rule like_from_label_whole)
    then show ?thesis using Some by (simp add: extractLikeCountFromDOM_def)
  next
    case None
    note l = None
    show ?thesis
    proof (cases ?b)
      case (Some c)
      then obtain x where "like_from_button x = Some c" using first_some_Some by fastforce
      then have "whole_or_infinite c" by (rule like_from_button_whole)
      then show ?thesis using Some l by (simp add: extractLikeCountFromDOM_def)
    next
      case None
      note b = None
      show ?thesis
      proof (cases ?p)
        case (Some c)
        then obtain x where "positive_count x = Some c" using first_some_Some by fastforce
        then have "whole_or_infinite c" by (rule positive_count_whole)
        then show ?thesis using Some l b by (simp add: extractLikeCountFromDOM_def)
      next
        case None
        then show ?thesis using l b z by (simp add: extractLikeCountFromDOM_def)
      qed
    qed
  qed
qed

section \<open>Facts about the recursive search and the analyzer\<close>

lemma search_entries_returns:
  "\<forall>(k, v) \<in> set es. (case v of JRef b \<Rightarrow> \<exists>r. search (JRef b) = Some r | _ \<Rightarrow> True)
   \<Longrightarrow> \<exists>r. search_entries search es = Some r"
proof (induction es)
  case Nil
  then show ?case by simp
next
  case (Cons e es)
  obtain k v where e: "e = (k, v)" by (cases e)
  have ih: "\<exists>r. search_entries search es = Some r" using Cons by simp
  show ?case
  proof (cases v)
    case (JRef b)
    then obtain r where "search (JRef b) = Some r" using Cons.prems e by auto
    then show ?thesis using ih e JRef by (cases r) (auto split: option.splits)
  qed (use ih e in \<open>auto split: option.splits\<close>)
qed

lemma search_returns:
  "nested_within n h a \<Longrightarrow> \<exists>r. searchForLikeCount n h (JRef a) = Some r"
proof (induction n arbitrary: a)
  case 0
  then show ?case by simp
next
  case (Suc n)
  have "\<forall>(k, v) \<in> set (entries (h a)).
          (case v of JRef b \<Rightarrow> \<exists>r. searchForLikeCount n h (JRef b) = Some r | _ \<Rightarrow> True)"
    using Suc by (auto simp: list_all_iff split: jsval.splits)
  then have "\<exists>r. search_entries (searchForLikeCount n h) (entries (h a)) = Some r"
    by (rule search_entries_returns)
  then show ?case by simp
qed

lemma search_cyclic: "searchForLikeCount depth ex_cyclic_heap (JRef 0) = None"
  by (induction depth) (simp_all add: ex_cyclic_heap_def toLowerCase_def lower_char_def)

lemma chain_overflow:
  "a + depth \<le> n \<Longrightarrow> searchForLikeCount depth (ex_chain_heap n) (JRef a) = None"
proof (induction depth arbitrary: a)
  case 0
  then show ?case by simp
next
  case (Suc depth)
  have "searchForLikeCount depth (ex_chain_heap n) (JRef (Suc a)) = None"
    using Suc.prems by (intro Suc.IH) simp
  moreover have "a < n" using Suc.prems by simp
  ultimately show ?case
    by (simp add: ex_chain_heap_def toLowerCase_def lower_char_def)
qed

lemma chain_nested: "n \<le> a + k \<Longrightarrow> nested_within (Suc k) (ex_chain_heap n) a"
proof (induction k arbitrary: a)
  case 0
  then show ?case by (simp add: ex_chain_heap_def)
next
  case (Suc k)
  have "nested_within (Suc k) (ex_chain_heap n) (Suc a)"
    using Suc.prems by (intro Suc.IH) simp
  then show ?case by (simp add: ex_chain_heap_def)
qed

lemma search_overflow_nested:
  assumes "searchForLikeCount stack h (JRef a) = None"
  shows "\<not> nested_within stack h a"
proof
  assume "nested_within stack h a"
  then have "\<exists>r. searchForLikeCount stack h (JRef a) = Some r" by (rule search_returns)
  then show False using assms by simp
qed

lemma search_entries_mono:
  assumes "\<And>v r. s1 v = Some r \<Longrightarrow> s2 v = Some r"
  shows "search_entries s1 es = Some r \<Longrightarrow> search_entries s2 es = Some r"
proof (induction es)
  case Nil
  then show ?case by simp
next
  case (Cons e es)
  obtain k v where e: "e = (k, v)" by (cases e)
  show ?case
  proof (cases v)
    case (JRef b)
    show ?thesis
    proof (cases "s1 (JRef b)")
      case None
      then show ?thesis using Cons.prems e JRef by (simp split: option.splits if_splits)
    next
      case (Some x)
      then have "s2 (JRef b) = Some x" by (rule assms)
      then show ?thesis using Cons e JRef Some by (cases x) (auto split: option.splits if_splits)
    qed
  qed (use Cons e in \<open>auto split: option.splits if_splits\<close>)
qed

lemma search_Suc:
  "searchForLikeCount n h obj = Some r \<Longrightarrow> searchForLikeCount (Suc n) h obj = Some r"
proof (induction n arbitrary: obj r)
  case 0
  then show ?case by simp
next
  case (Suc n)
  show ?case
  proof (cases obj)
    case (JRef a)
    have "search_entries (searchForLikeCount n h) (entries (h a)) = Some r"
      using Suc.prems JRef by simp
    then have "search_entries (searchForLikeCount (Suc n) h) (entries (h a)) = Some r"
      using Suc.IH by (rule search_entries_mono[rotated])
    then show ?thesis using JRef by simp
  qed (use Suc.prems in auto)
qed

lemma search_deeper:
  "searchForLikeCount n h obj = Some r \<Longrightarrow> n \<le> m \<Longrightarrow> searchForLikeCount m h obj = Some r"
proof (induction m)
  case 0
  then show ?case by simp
next
  case (Suc m)
  show ?case
  proof (cases "n = Suc m")
    case True
    then show ?thesis using Suc.prems(1) by (simp only:)
  next
    case False
    then have "n \<le> m" using Suc.prems(2) by simp
    then have "searchForLikeCount m h obj = Some r" using Suc.IH Suc.prems(1) by blast
    then show ?thesis by (rule search_Suc)
  qed
qed

lemma analysed_inv:
  assumes "analyzeYouTubePage pf now window document url = Inr r" and "success r" and "data r = Some a"
  shows "aggregate_inv a"
proof -
  have "\<exists>v. videos a = [v] \<and> totalLikes a = likeCount v \<and> videoCount a = 1"
    using assms
    by (auto simp: analyzeYouTubePage_def analyzeYouTubePage_try_def Let_def
        split: option.splits sum.splits if_splits)
  then show ?thesis by (auto simp: aggregate_inv_def calculateTotalLikes_def num_add_zero)
qed

lemma analysed_whole:
  assumes "analyzeYouTubePage pf now window document url = Inr r" and "data r = Some a"
  shows "list_all (\<lambda>v. whole_or_infinite (likeCount v)) (videos a)"
proof -
  have "\<exists>v. videos a = [v] \<and> likeCount v = extractLikeCount window document"
    using assms
    by (auto simp: analyzeYouTubePage_def analyzeYouTubePage_try_def Let_def
        split: option.splits sum.splits if_splits)
  then show ?thesis
    using extractLikeCountFromDOM_whole by (auto simp: extractLikeCount_def)
qed

lemma produced_whole:
  "produced pf a \<Longrightarrow> list_all (\<lambda>v. whole_or_infinite (likeCount v)) (videos a)"
proof (induction rule: produced.induct)
  case (analysed now window document url r a)
  then show ?case using analysed_whole by blast
next
  case (merged a b now)
  then show ?case using merge_videos_subset[of now a b] by (auto simp: list_all_iff)
qed

lemma ex_analysis:
  "analyzeYouTubePage ex_platform 17 ex_window ex_document ''https://www.youtube.com/watch?v=v1''
     = Inr \<lparr> success = True, data = Some ex_analysed, error = None \<rparr>"
  by code_simp

lemma ex_analysis_second:
  "analyzeYouTubePage ex_platform 18 ex_window (ex_count_document ''500'')
     ''https://www.youtube.com/watch?v=v2''
     = Inr \<lparr> success = True, data = Some (ex_counted ''v2'' 500 18), error = None \<rparr>"
  by code_simp

lemma ex_analysis_large:
  "analyzeYouTubePage ex_platform 17 ex_window (ex_count_document ''9007199254740992'')
     ''https://www.youtube.com/watch?v=v2''
     = Inr \<lparr> success = True, data = Some (ex_counted ''v2'' 9007199254740992 17), error = None \<rparr>"
  by code_simp

lemma ex_analysis_one:
  "analyzeYouTubePage ex_platform 18 ex_window (ex_count_document ''1'')
     ''https://www.youtube.com/watch?v=v3''
     = Inr \<lparr> success = True, data = Some (ex_counted ''v3'' 1 18), error = None \<rparr>"
  by code_simp

lemma ex_analysis_named:
  "analyzeYouTubePage ex_platform 16 ex_window ex_named_document
     ''https://www.youtube.com/watch?v=v1''
     = Inr \<lparr> success = True, data = Some ex_named, error = None \<rparr>"
  by code_simp

lemma produced_analysis:
  assumes "analyzeYouTubePage pf now window document url
             = Inr \<lparr> success = True, data = Some a, error = None \<rparr>"
  shows "produced pf a"
  using assms by (rule produced.analysed) simp_all

lemma extractVideoId_nonempty: "extractVideoId url = Some v \<Longrightarrow> v \<noteq> []"
  using extractVideoId_Some by blast

text \<open>
  The name of an analysed aggregate: what the locator returned when that is truthy, and
  the sentinel otherwise; it is truthy in both cases.
\<close>

lemma analysed_name:
  assumes "analyzeYouTubePage pf t window document url = Inr r" and "data r = Some a"
  shows "channelName a = (if truthy (extractChannelName window document)
                          then extractChannelName window document
                          else JStr ''Unknown Channel'')"
proof (cases "extractVideoId url")
  case None
  then show ?thesis using assms
    by (auto simp: analyzeYouTubePage_def analyzeYouTubePage_try_def)
next
  case (Some v)
  then have v: "v \<noteq> []" by (rule extractVideoId_nonempty)
  show ?thesis
  proof (cases "extractChannelId pf url")
    case (Inl e)
    then show ?thesis using assms Some v
      by (auto simp: analyzeYouTubePage_def analyzeYouTubePage_try_def Let_def)
  next
    case (Inr found)
    then show ?thesis using assms Some v
      by (auto simp: analyzeYouTubePage_def analyzeYouTubePage_try_def Let_def)
  qed
qed

lemma analysed_name_truthy:
  assumes "analyzeYouTubePage pf t window document url = Inr r" and "data r = Some a"
  shows "truthy (channelName a)"
  using analysed_name[OF assms] by simp

lemma merged_name:
  "channelName (mergeChannelData now existingData newData)
     = (if truthy (channelName newData) then channelName newData else channelName existingData)"
  by (simp add: mergeChannelData_def Let_def)

section \<open>Claims about the aggregator\<close>

text \<open>
  Claim C10. Whatever the two inputs hold, also lists in which several records share an
  id, the videos of the result of \<open>mergeChannelData\<close> carry pairwise different ids: the
  id-keyed map establishes uniqueness, it does not merely preserve it.
\<close>

theorem mergeChannelData_unique_ids:
  "distinct (map id' (videos (mergeChannelData now existingData newData)))"
  by (rule merge_distinct)



text \<open>
  Claim C8, as amended. For an aggregate that satisfies the invariants of the data model
  (pairwise different ids, total equal to the sum as \<open>calculateTotalLikes\<close> adds it,
  count equal to the number of videos), merging it with itself gives back the same
  videos in the same order, the same total, the same count and the same channel id.
\<close>

theorem merge_idempotent:
  assumes "aggregate_inv a"
  shows "videos (mergeChannelData now a a) = videos a
       \<and> totalLikes (mergeChannelData now a a) = totalLikes a
       \<and> videoCount (mergeChannelData now a a) = videoCount a
       \<and> channelId (mergeChannelData now a a) = channelId a"
proof -
  have v: "videos (mergeChannelData now a a) = videos a"
    using assms by (simp add: aggregate_inv_def merge_self_videos)
  have "totalLikes (mergeChannelData now a a) = calculateTotalLikes (videos a)"
    by (simp only: merge_total v)
  moreover have "videoCount (mergeChannelData now a a) = length (videos a)"
    by (simp only: merge_count v)
  moreover have "channelId (mergeChannelData now a a) = channelId a"
    by (simp add: mergeChannelData_def Let_def)
  ultimately show ?thesis using v assms by (simp add: aggregate_inv_def)
qed

theorem merge_idempotent_witness:
  "aggregate_inv (ex_channel [ex_video ''x'' 5, ex_video ''y'' 7] 12 2)
   \<and> videos (mergeChannelData 3 (ex_channel [ex_video ''x'' 5, ex_video ''y'' 7] 12 2)
                (ex_channel [ex_video ''x'' 5, ex_video ''y'' 7] 12 2))
       = [ex_video ''x'' 5, ex_video ''y'' 7]
   \<and> totalLikes (mergeChannelData 3 (ex_channel [ex_video ''x'' 5, ex_video ''y'' 7] 12 2)
                (ex_channel [ex_video ''x'' 5, ex_video ''y'' 7] 12 2)) = Num 12
   \<and> videoCount (mergeChannelData 3 (ex_channel [ex_video ''x'' 5, ex_video ''y'' 7] 12 2)
                (ex_channel [ex_video ''x'' 5, ex_video ''y'' 7] 12 2)) = 2"
proof -
  have i: "aggregate_inv (ex_channel [ex_video ''x'' 5, ex_video ''y'' 7] 12 2)"
    by (simp add: aggregate_inv_def calculateTotalLikes_def ex_channel_def ex_video_def
        round_double_numeral)
  show ?thesis
    using merge_idempotent [OF i, of 3] i by (simp add: ex_channel_def)
qed

text \<open>
  Claim C8 as stated fails on a record whose list holds two records with one id: the
  merge with itself keeps one of them, so the videos, the count and the total change.
\<close>

theorem merge_idempotent_counterexample:
  "videos (mergeChannelData 3 (ex_channel [ex_video ''x'' 5, ex_video ''x'' 7] 12 2)
             (ex_channel [ex_video ''x'' 5, ex_video ''x'' 7] 12 2)) = [ex_video ''x'' 7]
   \<and> videos (ex_channel [ex_video ''x'' 5, ex_video ''x'' 7] 12 2) \<noteq> [ex_video ''x'' 7]
   \<and> videoCount (mergeChannelData 3 (ex_channel [ex_video ''x'' 5, ex_video ''x'' 7] 12 2)
             (ex_channel [ex_video ''x'' 5, ex_video ''x'' 7] 12 2)) = 1
   \<and> videoCount (ex_channel [ex_video ''x'' 5, ex_video ''x'' 7] 12 2) = 2
   \<and> totalLikes (mergeChannelData 3 (ex_channel [ex_video ''x'' 5, ex_video ''x'' 7] 12 2)
             (ex_channel [ex_video ''x'' 5, ex_video ''x'' 7] 12 2)) = Num 7
   \<and> totalLikes (ex_channel [ex_video ''x'' 5, ex_video ''x'' 7] 12 2) = Num 12"
  by (simp add: mergeChannelData_def Let_def new_Map_def map_values_def calculateTotalLikes_def
      ex_channel_def ex_video_def)

section \<open>Claims about the parser and the extractors\<close>

text \<open>
  Claim C3. \<open>parseLikeCountText\<close> gives 1200 on \<open>1.2K\<close>, 3400000 on \<open>3.4M\<close>, 500 on
  \<open>500\<close>, 0 on the empty string, 0 on \<open>garbage\<close> and 2500000000 on \<open>2.5B\<close>. The
  literals 1.2 and 3.4 are rounded to binary64, and so are their products with 1000 and
  1000000, which come out as 1200 and 3400000; 2.5 is exact.
\<close>

theorem parseLikeCountText_examples:
  "parseLikeCountText ''1.2K'' = Num 1200
   \<and> parseLikeCountText ''3.4M'' = Num 3400000
   \<and> parseLikeCountText ''500'' = Num 500
   \<and> parseLikeCountText [] = Num 0
   \<and> parseLikeCountText ''garbage'' = Num 0
   \<and> parseLikeCountText ''2.5B'' = Num 2500000000"
  by code_simp

text \<open>
  Claim C9, as amended. \<open>extractVideoId\<close> is absent exactly when the url nowhere holds
  \<open>youtube.com/watch?v=\<close> or \<open>youtu.be/\<close> followed by a character other than
  \<open>&\<close>, newline, \<open>?\<close> and \<open>#\<close>. When it returns an id, the id is not empty, holds
  none of these four characters, follows such a marker in the url, ends at the first of
  the four characters or at the end of the url, and no marker followed by an id
  character starts further left. For a url that \<open>new URL\<close> parses, with pathname \<open>p\<close>,
  \<open>extractChannelId\<close> returns \<open>seg\<close> exactly when \<open>p\<close> starts with \<open>/channel/\<close>, \<open>/c/\<close> or
  \<open>/@\<close>, then the non-empty \<open>seg\<close> without a slash, then a slash or the end; it returns
  absent exactly when \<open>p\<close> starts with none of the three prefixes followed by a
  character other than the slash. For a url that \<open>new URL\<close> rejects it throws.
\<close>

theorem extract_identifiers:
  "(extractVideoId url = None \<longleftrightarrow>
      \<not> (\<exists>pre c rest. \<exists>m \<in> {''youtube.com/watch?v='', ''youtu.be/''}.
            url = pre @ m @ c # rest \<and> id_char c))
   \<and> (\<forall>v. extractVideoId url = Some v \<longrightarrow>
        v \<noteq> [] \<and> (\<forall>c \<in> set v. id_char c) \<and>
        (\<exists>pre rest. \<exists>m \<in> {''youtube.com/watch?v='', ''youtu.be/''}.
           url = pre @ m @ v @ rest \<and> (rest = [] \<or> \<not> id_char (hd rest)) \<and>
           (\<forall>pre' c' rest'. \<forall>m' \<in> {''youtube.com/watch?v='', ''youtu.be/''}.
              url = pre' @ m' @ c' # rest' \<and> id_char c' \<longrightarrow> length pre \<le> length pre')))
   \<and> (\<forall>p. URL_pathname pf url = Inr p \<longrightarrow>
        (\<forall>seg. extractChannelId pf url = Inr (Some seg) \<longleftrightarrow>
            seg \<noteq> [] \<and> CHR ''/'' \<notin> set seg \<and>
            (\<exists>pat \<in> set channel_patterns. \<exists>rest.
               p = pat @ seg @ rest \<and> (rest = [] \<or> hd rest = CHR ''/'')))
        \<and> (extractChannelId pf url = Inr None \<longleftrightarrow>
            \<not> (\<exists>pat \<in> set channel_patterns. \<exists>c rest. p = pat @ c # rest \<and> c \<noteq> CHR ''/'')))
   \<and> (\<forall>e. URL_pathname pf url = Inl e \<longrightarrow> extractChannelId pf url = Inl e)"
proof (intro conjI allI impI)
  show "extractVideoId url = None \<longleftrightarrow>
      \<not> (\<exists>pre c rest. \<exists>m \<in> {''youtube.com/watch?v='', ''youtu.be/''}.
            url = pre @ m @ c # rest \<and> id_char c)"
    by (rule extractVideoId_None)
next
  fix v assume v: "extractVideoId url = Some v"
  show "v \<noteq> []" using extractVideoId_Some[OF v] by blast
  show "\<forall>c \<in> set v. id_char c" using extractVideoId_Some[OF v] by blast
  obtain pre rest m where m: "m \<in> {''youtube.com/watch?v='', ''youtu.be/''}"
    and u: "url = pre @ m @ v @ rest" "rest = [] \<or> \<not> id_char (hd rest)"
      "\<forall>j < length pre. video_match_here (drop j url) = None"
    using extractVideoId_Some[OF v] by blast
  have "\<forall>pre' c' rest'. \<forall>m' \<in> {''youtube.com/watch?v='', ''youtu.be/''}.
              url = pre' @ m' @ c' # rest' \<and> id_char c' \<longrightarrow> length pre \<le> length pre'"
    using leftmost[OF u(3)] by blast
  then show "\<exists>pre rest. \<exists>m \<in> {''youtube.com/watch?v='', ''youtu.be/''}.
           url = pre @ m @ v @ rest \<and> (rest = [] \<or> \<not> id_char (hd rest)) \<and>
           (\<forall>pre' c' rest'. \<forall>m' \<in> {''youtube.com/watch?v='', ''youtu.be/''}.
              url = pre' @ m' @ c' # rest' \<and> id_char c' \<longrightarrow> length pre \<le> length pre')"
    using m u(1,2) by blast
next
  fix p seg assume p: "URL_pathname pf url = Inr p"
  show "extractChannelId pf url = Inr (Some seg) \<longleftrightarrow>
            seg \<noteq> [] \<and> CHR ''/'' \<notin> set seg \<and>
            (\<exists>pat \<in> set channel_patterns. \<exists>rest.
               p = pat @ seg @ rest \<and> (rest = [] \<or> hd rest = CHR ''/''))"
    by (rule extractChannelId_spec(1)[OF p])
next
  fix p assume p: "URL_pathname pf url = Inr p"
  show "extractChannelId pf url = Inr None \<longleftrightarrow>
            \<not> (\<exists>pat \<in> set channel_patterns. \<exists>c rest. p = pat @ c # rest \<and> c \<noteq> CHR ''/'')"
    by (rule extractChannelId_spec(2)[OF p])
next
  fix e assume "URL_pathname pf url = Inl e"
  then show "extractChannelId pf url = Inl e" by (rule extractChannelId_throws)
qed

theorem extract_identifiers_witness:
  "extractVideoId ''https://www.youtube.com/watch?v=abc123&t=5'' = Some ''abc123''
   \<and> (\<exists>pre rest. \<exists>m \<in> {''youtube.com/watch?v='', ''youtu.be/''}.
         ''https://www.youtube.com/watch?v=abc123&t=5'' = pre @ m @ ''abc123'' @ rest
         \<and> (rest = [] \<or> \<not> id_char (hd rest))
         \<and> (\<forall>pre' c' rest'. \<forall>m' \<in> {''youtube.com/watch?v='', ''youtu.be/''}.
              ''https://www.youtube.com/watch?v=abc123&t=5'' = pre' @ m' @ c' # rest' \<and> id_char c'
              \<longrightarrow> length pre \<le> length pre'))
   \<and> URL_pathname ex_platform ''https://www.youtube.com/@somechannel'' = Inr ''/@somechannel''
   \<and> extractChannelId ex_platform ''https://www.youtube.com/@somechannel'' = Inr (Some ''somechannel'')
   \<and> URL_pathname ex_platform ''youtu.be/xyz789'' = Inl (TypeError ''Invalid URL'')
   \<and> extractChannelId ex_platform ''youtu.be/xyz789'' = Inl (TypeError ''Invalid URL'')"
proof -
  have v: "extractVideoId ''https://www.youtube.com/watch?v=abc123&t=5'' = Some ''abc123''"
    by code_simp
  have p: "URL_pathname ex_platform ''https://www.youtube.com/@somechannel'' = Inr ''/@somechannel''"
    by code_simp
  have q: "URL_pathname ex_platform ''youtu.be/xyz789'' = Inl (TypeError ''Invalid URL'')"
    by code_simp
  note t1 = extract_identifiers [of "''https://www.youtube.com/watch?v=abc123&t=5''" ex_platform]
  note t2 = extract_identifiers [of "''https://www.youtube.com/@somechannel''" ex_platform]
  note t3 = extract_identifiers [of "''youtu.be/xyz789''" ex_platform]
  note 1 = t1 [THEN conjunct2, THEN conjunct1, THEN spec, THEN mp, OF v,
      THEN conjunct2, THEN conjunct2]
  have "\<exists>rest. ''/@somechannel'' = ''/@'' @ ''somechannel'' @ rest
                \<and> (rest = [] \<or> hd rest = CHR ''/'')"
    by (rule exI [of _ "[]"]) simp
  then have "\<exists>pat \<in> set channel_patterns. \<exists>rest.
          ''/@somechannel'' = pat @ ''somechannel'' @ rest \<and> (rest = [] \<or> hd rest = CHR ''/'')"
    by (rule bexI [of _ "''/@''"]) (simp add: channel_patterns_def)
  moreover have "''somechannel'' \<noteq> [] \<and> CHR ''/'' \<notin> set ''somechannel''" by simp
  ultimately have 2: "extractChannelId ex_platform ''https://www.youtube.com/@somechannel''
                  = Inr (Some ''somechannel'')"
    using t2 [THEN conjunct2, THEN conjunct2, THEN conjunct1, THEN spec, THEN mp, OF p,
        THEN conjunct1, THEN spec, of "''somechannel''"]
    by (simp only: simp_thms)
  note 3 = t3 [THEN conjunct2, THEN conjunct2, THEN conjunct2, THEN spec, THEN mp, OF q]
  show ?thesis
    apply (intro conjI)
         apply (rule v)
        apply (rule 1)
       apply (rule p)
      apply (rule 2)
     apply (rule q)
    apply (rule 3)
    done
qed

text \<open>
  Claim C9 as stated fails on a url that \<open>new URL\<close> rejects, here one without a scheme:
  \<open>extractChannelId\<close> returns neither a segment nor absent, it throws the \<open>TypeError\<close>
  of the URL constructor, on every platform.
\<close>

theorem extractChannelId_unparsable_counterexample:
  "\<forall>pf. extractChannelId pf ''www.youtube.com/@somechannel'' = Inl (TypeError (invalid_url_message pf))"
proof
  fix pf
  have "\<not> has_scheme ''www.youtube.com/@somechannel''" by code_simp
  then show "extractChannelId pf ''www.youtube.com/@somechannel'' = Inl (TypeError (invalid_url_message pf))"
    by (simp add: extractChannelId_def URL_pathname_def)
qed

section \<open>Claims about the locators\<close>

text \<open>
  Claim C4, as amended. The search keeps no set of visited objects and has no cap on its
  depth. With a call stack that allows \<open>stack\<close> nested calls it returns when the object
  graph below \<open>obj\<close> is nested at most \<open>stack\<close> deep, and with the result it gives at
  the depth \<open>n\<close> of the nesting, whatever the stack; on a value that is not an object it
  returns at once. It runs out of stack only on an object that is nested deeper than
  the stack allows. That happens at every stack size: on the chain of \<open>stack + 1\<close>
  objects, which has no cycle, and on the object that refers to itself. When the stack
  runs out, \<open>extractFromYtInitialDataAlternative\<close> returns \<open>null\<close>.
\<close>

theorem searchForLikeCount_returns_within_stack:
  "(0 < n \<and> n \<le> stack \<and> (\<forall>a. obj = JRef a \<longrightarrow> nested_within n h a) \<longrightarrow>
      (\<exists>r. searchForLikeCount stack h obj = Some r
           \<and> searchForLikeCount n h obj = Some r
           \<and> extractFromYtInitialDataAlternative stack h obj = r))
   \<and> (searchForLikeCount stack h obj = None \<longrightarrow>
        extractFromYtInitialDataAlternative stack h obj = None
        \<and> (stack = 0 \<or> (\<exists>a. obj = JRef a \<and> \<not> nested_within stack h a)))
   \<and> nested_within (Suc stack) (ex_chain_heap stack) 0
   \<and> searchForLikeCount stack (ex_chain_heap stack) (JRef 0) = None
   \<and> searchForLikeCount stack ex_cyclic_heap (JRef 0) = None"
proof (intro conjI impI)
  assume a: "0 < n \<and> n \<le> stack \<and> (\<forall>a. obj = JRef a \<longrightarrow> nested_within n h a)"
  have "\<exists>r. searchForLikeCount n h obj = Some r"
  proof (cases obj)
    case (JRef b)
    then show ?thesis using a search_returns by simp
  next
    case JUndefined
    then show ?thesis using a by (cases n) auto
  next
    case JNull
    then show ?thesis using a by (cases n) auto
  next
    case (JBool b)
    then show ?thesis using a by (cases n) auto
  next
    case (JNum x)
    then show ?thesis using a by (cases n) auto
  next
    case (JStr s)
    then show ?thesis using a by (cases n) auto
  qed
  then obtain r where r: "searchForLikeCount n h obj = Some r" by blast
  then have s: "searchForLikeCount stack h obj = Some r"
    using a search_deeper by blast
  then have "extractFromYtInitialDataAlternative stack h obj = r"
    by (simp add: extractFromYtInitialDataAlternative_def)
  then show "\<exists>r. searchForLikeCount stack h obj = Some r
           \<and> searchForLikeCount n h obj = Some r
           \<and> extractFromYtInitialDataAlternative stack h obj = r"
    using r s by blast
next
  assume n: "searchForLikeCount stack h obj = None"
  then show "extractFromYtInitialDataAlternative stack h obj = None"
    by (simp add: extractFromYtInitialDataAlternative_def)
  show "stack = 0 \<or> (\<exists>a. obj = JRef a \<and> \<not> nested_within stack h a)"
  proof (cases stack)
    case 0
    then show ?thesis by simp
  next
    case (Suc d)
    then obtain a where o: "obj = JRef a" using n by (cases obj) auto
    then have "\<not> nested_within stack h a" using n search_overflow_nested by blast
    then show ?thesis using o by blast
  qed
next
  show "nested_within (Suc stack) (ex_chain_heap stack) 0" by (rule chain_nested) simp
  show "searchForLikeCount stack (ex_chain_heap stack) (JRef 0) = None"
    by (rule chain_overflow) simp
  show "searchForLikeCount stack ex_cyclic_heap (JRef 0) = None" by (rule search_cyclic)
qed

theorem searchForLikeCount_returns_within_stack_witness:
  "0 < (2::nat) \<and> (2::nat) \<le> 3 \<and> nested_within 2 ex_nested_heap 0
   \<and> searchForLikeCount 2 ex_nested_heap (JRef 0) = Some (Some (Num 1200))
   \<and> searchForLikeCount 3 ex_nested_heap (JRef 0) = Some (Some (Num 1200))
   \<and> extractFromYtInitialDataAlternative 3 ex_nested_heap (JRef 0) = Some (Num 1200)
   \<and> searchForLikeCount 1 ex_nested_heap (JRef 0) = None
   \<and> extractFromYtInitialDataAlternative 1 ex_nested_heap (JRef 0) = None
   \<and> \<not> nested_within 1 ex_nested_heap 0"
proof -
  have n: "nested_within 2 ex_nested_heap 0" by code_simp
  have v: "searchForLikeCount 2 ex_nested_heap (JRef 0) = Some (Some (Num 1200))" by code_simp
  have o: "searchForLikeCount 1 ex_nested_heap (JRef 0) = None" by code_simp
  have a: "0 < (2::nat) \<and> (2::nat) \<le> 3 \<and> (\<forall>a. JRef 0 = JRef a \<longrightarrow> nested_within 2 ex_nested_heap a)"
    using n by simp
  note t = searchForLikeCount_returns_within_stack [of 2 3 "JRef 0" ex_nested_heap]
  note u = searchForLikeCount_returns_within_stack [of 2 1 "JRef 0" ex_nested_heap]
  obtain r where r: "searchForLikeCount 3 ex_nested_heap (JRef 0) = Some r"
      "searchForLikeCount 2 ex_nested_heap (JRef 0) = Some r"
      "extractFromYtInitialDataAlternative 3 ex_nested_heap (JRef 0) = r"
    using t [THEN conjunct1, THEN mp, OF a] by blast
  have e: "r = Some (Num 1200)" using r(2) v by simp
  have 1: "searchForLikeCount 3 ex_nested_heap (JRef 0) = Some (Some (Num 1200))"
    using r(1) e by simp
  have 2: "extractFromYtInitialDataAlternative 3 ex_nested_heap (JRef 0) = Some (Num 1200)"
    using r(3) e by simp
  have w: "extractFromYtInitialDataAlternative 1 ex_nested_heap (JRef 0) = None
         \<and> ((1::nat) = 0 \<or> (\<exists>a. JRef 0 = JRef a \<and> \<not> nested_within 1 ex_nested_heap a))"
    using u [THEN conjunct2, THEN conjunct1, THEN mp, OF o] .
  have 3: "extractFromYtInitialDataAlternative 1 ex_nested_heap (JRef 0) = None"
    using w by (rule conjunct1)
  have 4: "\<not> nested_within 1 ex_nested_heap 0" using w by simp
  have p: "0 < (2::nat)" by simp
  have q: "(2::nat) \<le> 3" by simp
  show ?thesis using p q n v 1 2 o 3 4 by (intro conjI)
qed

text \<open>
  Claim C4 as stated fails on a cyclic graph and on deep nesting. On an object whose
  property refers to the object itself, no depth of nested calls is enough for the
  search to return. And whatever the stack allows, the chain of one object more has no
  cycle and the search does not return on it.
\<close>

theorem searchForLikeCount_overflow_counterexample:
  "\<not> (\<exists>depth r. searchForLikeCount depth ex_cyclic_heap (JRef 0) = Some r)
   \<and> (\<forall>stack. nested_within (Suc stack) (ex_chain_heap stack) 0
               \<and> searchForLikeCount stack (ex_chain_heap stack) (JRef 0) = None)"
proof (intro conjI allI)
  show "\<not> (\<exists>depth r. searchForLikeCount depth ex_cyclic_heap (JRef 0) = Some r)"
    by (simp add: search_cyclic)
next
  fix stack
  show "nested_within (Suc stack) (ex_chain_heap stack) 0" by (rule chain_nested) simp
  show "searchForLikeCount stack (ex_chain_heap stack) (JRef 0) = None"
    by (rule chain_overflow) simp
qed

text \<open>
  Claim C2. \<open>extractLikeCount\<close> does not try the structured-state strategies at all.
  On a page whose initial page state holds the like text \<open>1.2K\<close> in the known shape,
  where the first strategy finds 1200, and whose document shows no count,
  \<open>extractLikeCount\<close> returns the sentinel 0.
\<close>

theorem extractLikeCount_skips_page_state:
  "extractFromYtInitialData (heap ex_state_window) (ytInitialData ex_state_window) = Some (Num 1200)
   \<and> extractLikeCount ex_state_window ex_bare_document = Num 0"
  by code_simp

text \<open>The like count depends on the document only, whatever the page state holds.\<close>

lemma extractLikeCount_state_independent:
  "extractLikeCount window document = extractLikeCount window' document"
  by (simp add: extractLikeCount_def)

section \<open>Claims about the analyzer\<close>

text \<open>
  Claim C1, as amended. Every aggregate the system produces, the one of a successful
  analysis and every merge of produced aggregates, has a count equal to the number of
  its videos, pairwise different ids, and a total that is the sum of the like counts of
  its videos as binary64 adds them from left to right. When the like counts are in the
  exact range, whole numbers that add up to \<open>2 ^ 53\<close> at most, the total is their sum
  in the integers. The like counts of a produced aggregate are whole numbers or
  \<open>Infinity\<close>, so they are in the exact range as soon as they are finite and add up to
  \<open>2 ^ 53\<close> at most. The result of a merge has the first four properties whatever its
  two inputs are.
\<close>

theorem produced_invariants:
  "(produced pf a \<longrightarrow>
      data_model_invariants a \<and> list_all (\<lambda>v. whole_or_infinite (likeCount v)) (videos a))
   \<and> data_model_invariants (mergeChannelData now x y)"
proof
  have m: "aggregate_inv (mergeChannelData t u v)" for t u v
    using merge_total merge_count merge_distinct by (simp add: aggregate_inv_def)
  show "produced pf a \<longrightarrow>
          data_model_invariants a \<and> list_all (\<lambda>v. whole_or_infinite (likeCount v)) (videos a)"
  proof
    assume p: "produced pf a"
    then have "aggregate_inv a"
    proof (induction rule: produced.induct)
      case (analysed now window document url r a)
      then show ?case by (rule analysed_inv)
    next
      case (merged a b now)
      show ?case by (rule m)
    qed
    then have "data_model_invariants a" by (rule invariants_from_total)
    moreover have "list_all (\<lambda>v. whole_or_infinite (likeCount v)) (videos a)"
      using p by (rule produced_whole)
    ultimately show "data_model_invariants a
        \<and> list_all (\<lambda>v. whole_or_infinite (likeCount v)) (videos a)" ..
  qed
  show "data_model_invariants (mergeChannelData now x y)"
    using m by (rule invariants_from_total)
qed

theorem produced_invariants_witness:
  "produced ex_platform ex_two_videos
   \<and> exact_range (videos ex_two_videos)
   \<and> map id' (videos ex_two_videos) = [''v1'', ''v2'']
   \<and> map likeCount (videos ex_two_videos) = [Num 1200, Num 500]
   \<and> sum_of_likes (videos ex_two_videos) = 1700
   \<and> totalLikes ex_two_videos = Num 1700
   \<and> videoCount ex_two_videos = 2"
proof -
  have q1: "produced ex_platform ex_analysed" by (rule produced_analysis [OF ex_analysis])
  have q2: "produced ex_platform (ex_counted ''v2'' 500 18)"
    by (rule produced_analysis [OF ex_analysis_second])
  have p: "produced ex_platform ex_two_videos"
    unfolding ex_two_videos_def by (rule produced.merged [OF q1 q2])
  have i: "map id' (videos ex_two_videos) = [''v1'', ''v2'']"
    by (simp add: ex_two_videos_def mergeChannelData_def Let_def new_Map_def map_values_def
        ex_analysed_def ex_counted_def)
  have l: "map likeCount (videos ex_two_videos) = [Num 1200, Num 500]"
    by (simp add: ex_two_videos_def mergeChannelData_def Let_def new_Map_def map_values_def
        ex_analysed_def ex_counted_def)
  have s: "sum_of_likes (videos ex_two_videos) = 1700"
    by (simp add: sum_of_likes_def whole_val_def ex_two_videos_def mergeChannelData_def Let_def
        new_Map_def map_values_def ex_analysed_def ex_counted_def)
  have x: "exact_range (videos ex_two_videos)"
    unfolding exact_range_def s
    by (simp add: whole_def ex_two_videos_def mergeChannelData_def Let_def
        new_Map_def map_values_def ex_analysed_def ex_counted_def)
  have inv: "data_model_invariants ex_two_videos"
    using produced_invariants [of ex_platform ex_two_videos, THEN conjunct1, THEN mp, OF p,
        THEN conjunct1] .
  have e: "totalLikes ex_two_videos = Num (of_int (sum_of_likes (videos ex_two_videos)))"
    using inv x unfolding data_model_invariants_def by blast
  have t: "totalLikes ex_two_videos = Num 1700" unfolding e s by simp
  have n: "videoCount ex_two_videos = length (videos ex_two_videos)"
    using inv unfolding data_model_invariants_def by blast
  have "length (videos ex_two_videos) = 2" using arg_cong [OF i, of length] by simp
  then have c: "videoCount ex_two_videos = 2" unfolding n .
  show ?thesis using p x i l s t c by (intro conjI)
qed

text \<open>
  Claim C1 as stated fails beyond the exact range. The analysis of a page that shows
  9007199254740992 likes, which is \<open>2 ^ 53\<close>, and the analysis of a page that shows 1
  like give two aggregates; their merge holds the two videos, the sum of whose like
  counts is 9007199254740993, and its total is 9007199254740992, what binary64 gives
  for \<open>2 ^ 53 + 1\<close>.
\<close>

theorem total_rounded_counterexample:
  "produced ex_platform ex_rounded
   \<and> map likeCount (videos ex_rounded) = [Num 9007199254740992, Num 1]
   \<and> sum_of_likes (videos ex_rounded) = 9007199254740993
   \<and> totalLikes ex_rounded = Num 9007199254740992
   \<and> totalLikes ex_rounded \<noteq> Num (of_int (sum_of_likes (videos ex_rounded)))"
proof -
  have q1: "produced ex_platform (ex_counted ''v2'' 9007199254740992 17)"
    by (rule produced_analysis [OF ex_analysis_large])
  have q2: "produced ex_platform (ex_counted ''v3'' 1 18)"
    by (rule produced_analysis [OF ex_analysis_one])
  have p: "produced ex_platform ex_rounded"
    unfolding ex_rounded_def by (rule produced.merged [OF q1 q2])
  have l: "map likeCount (videos ex_rounded) = [Num 9007199254740992, Num 1]" by code_simp
  have s: "sum_of_likes (videos ex_rounded) = 9007199254740993" by code_simp
  have t: "totalLikes ex_rounded = Num 9007199254740992" by code_simp
  have n: "totalLikes ex_rounded \<noteq> Num (of_int (sum_of_likes (videos ex_rounded)))"
    unfolding s t by simp
  show ?thesis using p l s t n by (intro conjI)
qed

text \<open>
  Claim C5. When \<open>extractVideoId\<close> is absent the analysis returns the failure
  \<open>Not a video page\<close> without data, for every window and document: no result of an
  extraction enters it. When \<open>extractVideoId\<close> accepts the url and \<open>extractChannelId\<close>
  throws, the analysis returns a failure without data that carries the message of the
  error. In every case the analysis returns an outcome to its caller, never an
  exception: a success with data and no error, or a failure with an error message and
  no data.
\<close>

theorem analyze_failures:
  "(extractVideoId url = None \<longrightarrow>
      analyzeYouTubePage pf now window document url
        = Inr \<lparr> success = False, data = None, error = Some ''Not a video page'' \<rparr>)
   \<and> (\<forall>v e. extractVideoId url = Some v \<longrightarrow> extractChannelId pf url = Inl e \<longrightarrow>
        analyzeYouTubePage pf now window document url
          = Inr \<lparr> success = False, data = None, error = Some (message e) \<rparr>)
   \<and> (\<exists>r. analyzeYouTubePage pf now window document url = Inr r \<and>
          (if success r then data r \<noteq> None \<and> error r = None
           else data r = None \<and> error r \<noteq> None))"
proof (intro conjI allI impI)
  assume "extractVideoId url = None"
  then show "analyzeYouTubePage pf now window document url
        = Inr \<lparr> success = False, data = None, error = Some ''Not a video page'' \<rparr>"
    by (simp add: analyzeYouTubePage_def analyzeYouTubePage_try_def)
next
  fix v e assume v: "extractVideoId url = Some v" and e: "extractChannelId pf url = Inl e"
  have "v \<noteq> []" using v by (rule extractVideoId_nonempty)
  then show "analyzeYouTubePage pf now window document url
          = Inr \<lparr> success = False, data = None, error = Some (message e) \<rparr>"
    using v e by (simp add: analyzeYouTubePage_def analyzeYouTubePage_try_def Let_def)
next
  show "\<exists>r. analyzeYouTubePage pf now window document url = Inr r \<and>
          (if success r then data r \<noteq> None \<and> error r = None
           else data r = None \<and> error r \<noteq> None)"
    by (auto simp: analyzeYouTubePage_def analyzeYouTubePage_try_def Let_def
        split: option.splits sum.splits)
qed

theorem analyze_failures_witness:
  "extractVideoId ''https://www.youtube.com/@somechannel'' = None
   \<and> analyzeYouTubePage ex_platform 17 ex_window ex_document ''https://www.youtube.com/@somechannel''
       = Inr \<lparr> success = False, data = None, error = Some ''Not a video page'' \<rparr>
   \<and> extractVideoId ''youtu.be/xyz789'' = Some ''xyz789''
   \<and> extractChannelId ex_platform ''youtu.be/xyz789'' = Inl (TypeError ''Invalid URL'')
   \<and> analyzeYouTubePage ex_platform 17 ex_window ex_document ''youtu.be/xyz789''
       = Inr \<lparr> success = False, data = None, error = Some ''Invalid URL'' \<rparr>"
proof -
  have n: "extractVideoId ''https://www.youtube.com/@somechannel'' = None" by code_simp
  have v: "extractVideoId ''youtu.be/xyz789'' = Some ''xyz789''" by code_simp
  have e: "extractChannelId ex_platform ''youtu.be/xyz789'' = Inl (TypeError ''Invalid URL'')"
    by code_simp
  show ?thesis
    using analyze_failures [of "''https://www.youtube.com/@somechannel''" ex_platform 17 ex_window ex_document]
      analyze_failures [of "''youtu.be/xyz789''" ex_platform 17 ex_window ex_document]
      n v e
    by simp
qed

text \<open>
  Claim C7. The merge takes the incoming name when it is truthy and keeps the existing
  name otherwise: the guard is there to keep a known name when the incoming aggregate
  has none. An aggregate that \<open>analyzeYouTubePage\<close> builds never has a falsy name,
  because the analyzer stores the sentinel \<open>Unknown Channel\<close>, which is truthy, when the
  locator finds no name. So whenever the locator finds no name on the incoming page,
  the merge replaces the existing name, known or not, by the sentinel: the unresolved
  incoming name erases the known one.
\<close>

theorem unresolved_name_erases_known_name:
  assumes "analyzeYouTubePage pf t window document url = Inr r" and "data r = Some newData"
      and "\<not> truthy (extractChannelName window document)"
  shows "channelName newData = JStr ''Unknown Channel''
       \<and> channelName (mergeChannelData now existingData newData) = JStr ''Unknown Channel''"
proof -
  have n: "channelName newData = JStr ''Unknown Channel''"
    using analysed_name[OF assms(1,2)] assms(3) by simp
  then show ?thesis by (simp add: merged_name)
qed

theorem unresolved_name_erases_known_name_witness:
  "analyzeYouTubePage ex_platform 16 ex_window ex_named_document
       ''https://www.youtube.com/watch?v=v1''
     = Inr \<lparr> success = True, data = Some ex_named, error = None \<rparr>
   \<and> extractChannelName ex_window ex_named_document = JStr ''Real Name''
   \<and> channelName ex_named = JStr ''Real Name''
   \<and> analyzeYouTubePage ex_platform 17 ex_window ex_document
       ''https://www.youtube.com/watch?v=v1''
     = Inr \<lparr> success = True, data = Some ex_analysed, error = None \<rparr>
   \<and> \<not> truthy (extractChannelName ex_window ex_document)
   \<and> channelName ex_analysed = JStr ''Unknown Channel''
   \<and> channelName (mergeChannelData 18 ex_named ex_analysed) = JStr ''Unknown Channel''"
proof -
  have k: "extractChannelName ex_window ex_named_document = JStr ''Real Name''" by code_simp
  have c: "channelName ex_named = JStr ''Real Name''" by (simp add: ex_named_def)
  have u: "\<not> truthy (extractChannelName ex_window ex_document)" by code_simp
  have d: "data \<lparr> success = True, data = Some ex_analysed, error = None \<rparr> = Some ex_analysed"
    by simp
  note t = unresolved_name_erases_known_name [OF ex_analysis d u, of 18 ex_named]
  show ?thesis
    using ex_analysis_named k c ex_analysis u t [THEN conjunct1] t [THEN conjunct2]
    by (intro conjI)
qed

end
